theory Spec2Isabelle
  imports Main "HOL-Library.Sublist"
begin

section \<open>Access tiers and the tool registration gate (core/tools.ts)\<close>

text \<open>
  \<^verbatim>\<open>export type AccessTier = "read-only" | "read-execute" | "full";\<close>
  The string union is a datatype; \<open>tier_name\<close> gives back the string each
  constructor stands for.
\<close>

datatype AccessTier = ReadOnly | ReadExecute | Full

fun tier_name :: "AccessTier \<Rightarrow> string" where
  "tier_name ReadOnly = ''read-only''"
| "tier_name ReadExecute = ''read-execute''"
| "tier_name Full = ''full''"

text \<open>
  \<^verbatim>\<open>const TIER_LEVELS: Record<AccessTier, number> =
    { "read-only": 0, "read-execute": 1, "full": 2 };\<close>
\<close>

fun TIER_LEVELS :: "AccessTier \<Rightarrow> nat" where
  "TIER_LEVELS ReadOnly = 0"
| "TIER_LEVELS ReadExecute = 1"
| "TIER_LEVELS Full = 2"

text \<open>
  The configuration object of core/config.ts. \<open>categories\<close> is
  \<^verbatim>\<open>string[] | null\<close>: \<open>None\<close> is \<^verbatim>\<open>null\<close>.
\<close>

record AppConfig =
  url :: string
  apiKey :: string
  apiSecret :: string
  accessTier :: AccessTier
  categories :: "string list option"
  debug :: bool

text \<open>
  The annotation block of the protocol SDK: every field is optional.
\<close>

record ToolAnnotations =
  title :: "string option"
  readOnlyHint :: "bool option"
  destructiveHint :: "bool option"
  idempotentHint :: "bool option"
  openWorldHint :: "bool option"

text \<open>
  \<^verbatim>\<open>interface ToolRegistrationOptions\<close>. The field \<^verbatim>\<open>accessTier\<close> of the
  options is \<open>tool_accessTier\<close> here, since \<open>accessTier\<close> is the field of the
  configuration. The input schema and the handler are opaque to the gate:
  they are type parameters.
\<close>

record ('s, 'h) ToolRegistrationOptions =
  name :: string
  description :: string
  tool_accessTier :: AccessTier
  category :: string
  annotations :: "ToolAnnotations option"
  inputSchema :: "'s option"
  handler :: 'h

text \<open>
  The protocol server is external. What the gate does to it is one call of
  \<^verbatim>\<open>server.registerTool(name, toolConfig, handler)\<close>; the server is modelled
  as the sequence of these calls, in order.
\<close>

record ('s, 'h) RegisteredTool =
  reg_name :: string
  reg_description :: string
  reg_annotations :: ToolAnnotations
  reg_inputSchema :: "'s option"
  reg_handler :: 'h

type_synonym ('s, 'h) McpServer = "('s, 'h) RegisteredTool list"

text \<open>
  \<^verbatim>\<open>{ readOnlyHint: ..., destructiveHint: false, ...options.annotations }\<close>:
  a field the descriptor supplies overrides the default.
\<close>

definition spread_annotations :: "ToolAnnotations \<Rightarrow> ToolAnnotations option \<Rightarrow> ToolAnnotations" where
  "spread_annotations dflt ov =
     (case ov of
        None \<Rightarrow> dflt
      | Some a \<Rightarrow>
          \<lparr> title = (case title a of None \<Rightarrow> title dflt | Some v \<Rightarrow> Some v),
            readOnlyHint = (case readOnlyHint a of None \<Rightarrow> readOnlyHint dflt | Some v \<Rightarrow> Some v),
            destructiveHint = (case destructiveHint a of None \<Rightarrow> destructiveHint dflt | Some v \<Rightarrow> Some v),
            idempotentHint = (case idempotentHint a of None \<Rightarrow> idempotentHint dflt | Some v \<Rightarrow> Some v),
            openWorldHint = (case openWorldHint a of None \<Rightarrow> openWorldHint dflt | Some v \<Rightarrow> Some v) \<rparr>)"

definition default_annotations :: "('s, 'h) ToolRegistrationOptions \<Rightarrow> ToolAnnotations" where
  "default_annotations options =
     \<lparr> title = None,
       readOnlyHint = Some (tool_accessTier options = ReadOnly),
       destructiveHint = Some False,
       idempotentHint = None,
       openWorldHint = None \<rparr>"

definition tool_entry :: "('s, 'h) ToolRegistrationOptions \<Rightarrow> ('s, 'h) RegisteredTool" where
  "tool_entry options =
     \<lparr> reg_name = name options,
       reg_description = description options,
       reg_annotations = spread_annotations (default_annotations options) (annotations options),
       reg_inputSchema = inputSchema options,
       reg_handler = handler options \<rparr>"

text \<open>
  \<^verbatim>\<open>registerTool(server, config, options): boolean\<close>. The server is mutated
  in the source; here the new server is returned with the boolean. The two
  \<^verbatim>\<open>logger.debug\<close> lines write to the side channel only and are left out.
\<close>

definition registerTool ::
  "('s, 'h) McpServer \<Rightarrow> AppConfig \<Rightarrow> ('s, 'h) ToolRegistrationOptions \<Rightarrow> ('s, 'h) McpServer \<times> bool" where
  "registerTool server config options =
     (if TIER_LEVELS (accessTier config) < TIER_LEVELS (tool_accessTier options) then (server, False)
      else if (case categories config of
                 None \<Rightarrow> False
               | Some cats \<Rightarrow> category options \<notin> set cats) then (server, False)
      else (server @ [tool_entry options], True))"

text \<open>
  Every tool module calls \<open>registerTool\<close> once per descriptor, one after the
  other, on the same server and configuration.
\<close>

fun registerTools ::
  "('s, 'h) McpServer \<Rightarrow> AppConfig \<Rightarrow> ('s, 'h) ToolRegistrationOptions list \<Rightarrow> ('s, 'h) McpServer" where
  "registerTools server config [] = server"
| "registerTools server config (d # ds) = registerTools (fst (registerTool server config d)) config ds"

definition registered_names :: "('s, 'h) McpServer \<Rightarrow> string set" where
  "registered_names server = set (map reg_name server)"

text \<open>The two filters of the gate, as the specification words them.\<close>

definition tier_allows :: "AppConfig \<Rightarrow> ('s, 'h) ToolRegistrationOptions \<Rightarrow> bool" where
  "tier_allows config options \<longleftrightarrow> TIER_LEVELS (accessTier config) \<ge> TIER_LEVELS (tool_accessTier options)"

definition category_allows :: "AppConfig \<Rightarrow> ('s, 'h) ToolRegistrationOptions \<Rightarrow> bool" where
  "category_allows config options \<longleftrightarrow>
     (categories config = None \<or> category options \<in> set (the (categories config)))"


section \<open>Strings of the host language\<close>

text \<open>
  A string is the list of its code units. The characters of this development
  are the code units below 256; among them the white space of the language
  (what \<^verbatim>\<open>\s\<close> matches and \<^verbatim>\<open>trim\<close> removes) is TAB, LF, VT, FF, CR,
  SPACE and NO-BREAK SPACE.
\<close>

definition is_space :: "char \<Rightarrow> bool" where
  "is_space c \<longleftrightarrow>
     c \<in> set [CHR 0x09, CHR 0x0A, CHR 0x0B, CHR 0x0C, CHR 0x0D, CHR 0x20, CHR 0xA0]"

text \<open>\<^verbatim>\<open>String.prototype.trim\<close>: white space is removed at both ends.\<close>

definition trim :: "string \<Rightarrow> string" where
  "trim s = rev (dropWhile is_space (rev (dropWhile is_space s)))"

text \<open>
  \<^verbatim>\<open>String.prototype.split\<close> with a separator of one character: the input
  is cut at every separator; the empty string gives one empty segment.
\<close>

fun split :: "char \<Rightarrow> string \<Rightarrow> string list" where
  "split sep [] = [[]]"
| "split sep (c # cs) =
     (if c = sep then [] # split sep cs
      else (case split sep cs of
              [] \<Rightarrow> [[c]]
            | seg # segs \<Rightarrow> (c # seg) # segs))"

text \<open>\<^verbatim>\<open>Array.prototype.join\<close>.\<close>

fun join :: "string \<Rightarrow> string list \<Rightarrow> string" where
  "join sep [] = []"
| "join sep [x] = x"
| "join sep (x # y # ys) = x @ sep @ join sep (y # ys)"

text \<open>
  \<^verbatim>\<open>url.replace(/\/+$/, '')\<close>: the expression is tried at each position
  from the left, and it matches at a position exactly when everything from
  there to the end is one or more slashes; the match is removed.
\<close>

fun stripTrailingSlashes :: "string \<Rightarrow> string" where
  "stripTrailingSlashes [] = []"
| "stripTrailingSlashes (c # cs) =
     (if list_all (\<lambda>x. x = CHR ''/'') (c # cs) then [] else c # stripTrailingSlashes cs)"


section \<open>The configuration loader (core/config.ts)\<close>

text \<open>
  \<^verbatim>\<open>process.env\<close> maps a variable name to a string or to \<^verbatim>\<open>undefined\<close>.
  \<open>truthy\<close> is the truth value the language gives such a value in \<^verbatim>\<open>!url\<close>
  and \<^verbatim>\<open>Boolean(...)\<close>: false for \<^verbatim>\<open>undefined\<close> and for the empty string.
\<close>

type_synonym env = "string \<Rightarrow> string option"

definition truthy :: "string option \<Rightarrow> bool" where
  "truthy v = (case v of None \<Rightarrow> False | Some s \<Rightarrow> s \<noteq> [])"

text \<open>
  What a function throws: \<^verbatim>\<open>new Error(message)\<close>, or the \<^verbatim>\<open>TypeError\<close> of the
  language itself (its message depends on the engine and is left out).
\<close>

datatype exception = Error string | TypeError

text \<open>
  \<^verbatim>\<open>function parseAccessTier(): AccessTier {
    const tier = process.env.KOMODO_ACCESS_TIER;
    if (tier === "read-only" || tier === "read-execute") { return tier; }
    return "full";
  }\<close>
\<close>

definition parseAccessTier :: "env \<Rightarrow> AccessTier" where
  "parseAccessTier env =
     (let tier = env ''KOMODO_ACCESS_TIER'' in
      if tier = Some ''read-only'' then ReadOnly
      else if tier = Some ''read-execute'' then ReadExecute
      else Full)"

text \<open>
  \<^verbatim>\<open>function parseCategories(value: string | undefined): string[] | null {
    if (value === undefined || value === '') { return null; }
    return value.split(',').map((s) => s.trim()).filter((s) => s.length > 0);
  }\<close>
\<close>

definition parseCategories :: "string option \<Rightarrow> string list option" where
  "parseCategories v =
     (case v of
        None \<Rightarrow> None
      | Some s \<Rightarrow>
          if s = [] then None
          else Some (filter (\<lambda>s. length s > 0) (map trim (split CHR '','' s))))"

text \<open>
  \<^verbatim>\<open>loadConfig\<close>: the three required variables are read, the names of the
  falsy ones are collected in order, and a non-empty collection is thrown as
  one \<^verbatim>\<open>Error\<close>. Otherwise the configuration is returned; \<^verbatim>\<open>url!\<close>,
  \<^verbatim>\<open>apiKey!\<close> and \<^verbatim>\<open>apiSecret!\<close> are read only on this branch, where the
  three values are strings.
\<close>

definition loadConfig :: "env \<Rightarrow> exception + AppConfig" where
  "loadConfig env =
     (let url = env ''KOMODO_URL'';
          apiKey = env ''KOMODO_API_KEY'';
          apiSecret = env ''KOMODO_API_SECRET'';
          missing = (if \<not> truthy url then [''KOMODO_URL''] else [])
                  @ (if \<not> truthy apiKey then [''KOMODO_API_KEY''] else [])
                  @ (if \<not> truthy apiSecret then [''KOMODO_API_SECRET''] else [])
      in if length missing > 0 then
           Inl (Error (''Missing required environment variables: '' @ join '', '' missing @ ''. ''
                       @ ''Set these variables to connect to your Komodo instance.''))
         else
           Inr \<lparr> url = stripTrailingSlashes (the url),
                 apiKey = the apiKey,
                 apiSecret = the apiSecret,
                 accessTier = parseAccessTier env,
                 categories = parseCategories (env ''KOMODO_CATEGORIES''),
                 debug = truthy (env ''DEBUG'') \<rparr>)"

text \<open>
  The vocabulary of the specification: the required variables, those of them
  an environment leaves missing, and the text of the error for a list of
  names.
\<close>

definition required_vars :: "string list" where
  "required_vars = [''KOMODO_URL'', ''KOMODO_API_KEY'', ''KOMODO_API_SECRET'']"

definition missing_vars :: "env \<Rightarrow> string list" where
  "missing_vars env = filter (\<lambda>v. \<not> truthy (env v)) required_vars"

definition missing_message :: "string list \<Rightarrow> string" where
  "missing_message names =
     ''Missing required environment variables: '' @ join '', '' names @ ''. ''
       @ ''Set these variables to connect to your Komodo instance.''"

text \<open>
  What trimming means in the words of the specification: \<open>t\<close> is \<open>s\<close> without
  the white space at its two ends.
\<close>

definition trimmed_of :: "string \<Rightarrow> string \<Rightarrow> bool" where
  "trimmed_of s t \<longleftrightarrow>
     (\<exists>l r. s = l @ t @ r \<and> list_all is_space l \<and> list_all is_space r
        \<and> (t = [] \<or> (\<not> is_space (hd t) \<and> \<not> is_space (last t))))"


section \<open>The error sanitizer (core/errors.ts)\<close>

text \<open>
  \<^verbatim>\<open>String.prototype.replaceAll(pattern, replacement)\<close> with a string
  pattern: the occurrences of the pattern are found from the left, each
  search starting where the previous occurrence ended, and each is replaced.
  An empty pattern occurs before every character and at the end. The
  replacements of this program contain no \<^verbatim>\<open>$\<close>, so they are inserted as
  they are.
\<close>

function replaceAll :: "string \<Rightarrow> string \<Rightarrow> string \<Rightarrow> string" where
  "replaceAll p r [] = (if p = [] then r else [])"
| "replaceAll p r (c # cs) =
     (if p = [] then r @ c # replaceAll p r cs
      else if prefix p (c # cs) then r @ replaceAll p r (drop (length p) (c # cs))
      else c # replaceAll p r cs)"
  by pat_completeness auto
termination
  by (relation "measure (\<lambda>(p, r, s). length s)") auto

text \<open>
  The three expressions \<^verbatim>\<open>/x-api-key:\s*\S+/gi\<close>,
  \<^verbatim>\<open>/x-api-secret:\s*\S+/gi\<close> and \<^verbatim>\<open>/authorization:\s*\S+/gi\<close> have one
  shape: a literal, then \<^verbatim>\<open>\s*\<close>, then \<^verbatim>\<open>\S+\<close>.

  Under the flag \<^verbatim>\<open>i\<close> two characters match when their canonical forms
  are equal, and the canonical form is the upper case. The literals are
  ASCII, and a character outside ASCII never has an ASCII canonical form, so
  for these comparisons it is enough to map the ASCII letters to upper case.
\<close>

definition canonicalize :: "char \<Rightarrow> char" where
  "canonicalize c =
     (case map_of (zip ''abcdefghijklmnopqrstuvwxyz'' ''ABCDEFGHIJKLMNOPQRSTUVWXYZ'') c of
        None \<Rightarrow> c
      | Some u \<Rightarrow> u)"

text \<open>The literal \<open>h\<close> matches at the start of \<open>s\<close>, case-insensitively.\<close>

fun ci_prefix :: "string \<Rightarrow> string \<Rightarrow> bool" where
  "ci_prefix [] s = True"
| "ci_prefix (p # ps) [] = False"
| "ci_prefix (p # ps) (c # cs) =
     (if canonicalize c = canonicalize p then ci_prefix ps cs else False)"

text \<open>
  One attempt of the expression at the start of \<open>s\<close>. After the literal,
  \<^verbatim>\<open>\s*\<close> takes all the white space there is and \<^verbatim>\<open>\S+\<close> all the
  characters that follow up to the next white space; giving back white space
  cannot help, since \<^verbatim>\<open>\S+\<close> would then stand before a white space. The
  attempt fails when only white space follows the literal. The result is what
  remains of \<open>s\<close> after the match.
\<close>

definition match_header :: "string \<Rightarrow> string \<Rightarrow> string option" where
  "match_header h s =
     (if ci_prefix h s then
        (let r = dropWhile is_space (drop (length h) s) in
         if r = [] then None else Some (dropWhile (\<lambda>c. \<not> is_space c) r))
      else None)"

lemma match_header_shorter: "match_header h s = Some rest \<Longrightarrow> length rest < length s"
proof -
  assume a: "match_header h s = Some rest"
  define r where "r = dropWhile is_space (drop (length h) s)"
  from a have ne: "r \<noteq> []" and rest: "rest = dropWhile (\<lambda>c. \<not> is_space c) r"
    by (auto simp: match_header_def r_def Let_def split: if_splits)
  from ne have "\<not> is_space (hd r)"
    unfolding r_def by (rule hd_dropWhile)
  with ne have "length rest < length r"
    unfolding rest by (cases r) (auto intro: le_imp_less_Suc length_dropWhile_le)
  moreover have "length r \<le> length s"
    unfolding r_def by (rule order_trans [OF length_dropWhile_le]) simp
  ultimately show ?thesis by simp
qed

text \<open>
  \<^verbatim>\<open>String.prototype.replace\<close> with such an expression and the flag
  \<^verbatim>\<open>g\<close>: the leftmost match is replaced, and the search goes on where
  the match ended.
\<close>

function replace_header :: "string \<Rightarrow> string \<Rightarrow> string \<Rightarrow> string" where
  "replace_header h repl [] = []"
| "replace_header h repl (c # cs) =
     (case match_header h (c # cs) of
        Some rest \<Rightarrow> repl @ replace_header h repl rest
      | None \<Rightarrow> c # replace_header h repl cs)"
  by pat_completeness auto
termination
  by (relation "measure (\<lambda>(h, repl, s). length s)") (auto dest: match_header_shorter)

text \<open>
  \<^verbatim>\<open>const SENSITIVE_PATTERNS: string[] = [];\<close> is the state of the module;
  it is passed to the functions that read it and returned by the one that
  writes it.

  \<^verbatim>\<open>export function registerSensitivePattern(pattern: string): void {
    if (pattern && pattern.length > 0) { SENSITIVE_PATTERNS.push(pattern); }
  }\<close>
\<close>

definition registerSensitivePattern :: "string \<Rightarrow> string list \<Rightarrow> string list" where
  "registerSensitivePattern pattern patterns =
     (if pattern \<noteq> [] \<and> length pattern > 0 then patterns @ [pattern] else patterns)"

text \<open>
  \<^verbatim>\<open>export function sanitizeMessage(message: string): string {
    let sanitized = message;
    for (const pattern of SENSITIVE_PATTERNS) {
      sanitized = sanitized.replaceAll(pattern, "[REDACTED]");
    }
    sanitized = sanitized.replace(/x-api-key:\s*\S+/gi, "x-api-key: [REDACTED]");
    sanitized = sanitized.replace(/x-api-secret:\s*\S+/gi, "x-api-secret: [REDACTED]");
    sanitized = sanitized.replace(/authorization:\s*\S+/gi, "authorization: [REDACTED]");
    return sanitized;
  }\<close>
\<close>

definition sanitizeMessage :: "string list \<Rightarrow> string \<Rightarrow> string" where
  "sanitizeMessage patterns message =
     (let sanitized = fold (\<lambda>pattern sanitized. replaceAll pattern ''[REDACTED]'' sanitized) patterns message;
          sanitized = replace_header ''x-api-key:'' ''x-api-key: [REDACTED]'' sanitized;
          sanitized = replace_header ''x-api-secret:'' ''x-api-secret: [REDACTED]'' sanitized;
          sanitized = replace_header ''authorization:'' ''authorization: [REDACTED]'' sanitized
      in sanitized)"


section \<open>Thrown values and their text\<close>

text \<open>
  The value a handler catches has the type \<^verbatim>\<open>unknown\<close>. The values of
  this development are
  \<^item> the primitive values: \<^verbatim>\<open>undefined\<close>, \<^verbatim>\<open>null\<close>, the booleans, the
    numbers, the BigInts, the strings and the symbols (with their
    description, if they have one);
  \<^item> the functions, each given by its source text (what
    \<^verbatim>\<open>Function.prototype.toString\<close> returns for it) and by what a call of it
    as a \<^verbatim>\<open>toJSON\<close> method does: it returns a value or it throws;
  \<^item> the instances of \<^verbatim>\<open>Error\<close>, each given by the value of its
    \<^verbatim>\<open>message\<close> property, a primitive value, and by its properties;
  \<^item> the plain objects, given by their properties, and the arrays, given by
    their elements.

  The properties of an object are its enumerable data properties with string
  keys, in enumeration order; a method \<^verbatim>\<open>toJSON\<close> that the object has or
  inherits is listed among them under that key (a property whose value is a
  function never shows in a JSON text). Getters, proxies, boxed primitive
  values and arrays with extra properties are not among the values of this
  development.

  A finite number is given by the text that \<^verbatim>\<open>Number::toString\<close> gives it
  (\<^verbatim>\<open>404\<close>, \<^verbatim>\<open>-0.5\<close>, \<^verbatim>\<open>1e+21\<close>); no arithmetic is done on numbers.

  \<^verbatim>\<open>JSON.stringify\<close> keeps the stack of the objects it is serializing and
  throws when it is to serialize one of them again; \<open>JCycle\<close> stands for
  such a value, a reference to an enclosing object.
\<close>

datatype number = NumNaN | NumInfinity | NumNegInfinity | NumFinite string

datatype prim =
    PUndefined
  | PNull
  | PBool bool
  | PNum number
  | PBigInt int
  | PStr string
  | PSymbol "string option"

datatype jsval =
    JPrim prim
  | JFunction string call
  | JError prim "(string \<times> jsval) list"
  | JObject "(string \<times> jsval) list"
  | JArray "jsval list"
  | JCycle
and call = Returns jsval | Throws exception

text \<open>
  The decimal digits of an integer: the text of a BigInt. \<open>read_nat\<close> and
  \<open>read_int\<close> read such a text back.
\<close>

function show_nat :: "nat \<Rightarrow> string" where
  "show_nat n =
     (if n < 10 then [''0123456789'' ! n]
      else show_nat (n div 10) @ [''0123456789'' ! (n mod 10)])"
  by pat_completeness auto
termination
  by (relation "measure id") auto

declare show_nat.simps [simp del]

definition show_int :: "int \<Rightarrow> string" where
  "show_int i = (if i < 0 then CHR ''-'' # show_nat (nat (- i)) else show_nat (nat i))"

definition digit_of :: "char \<Rightarrow> nat" where
  "digit_of c = length (takeWhile (\<lambda>d. d \<noteq> c) ''0123456789'')"

definition read_nat :: "string \<Rightarrow> nat" where
  "read_nat s = foldl (\<lambda>a c. 10 * a + digit_of c) 0 s"

definition read_int :: "string \<Rightarrow> int" where
  "read_int s =
     (case s of
        [] \<Rightarrow> 0
      | c # t \<Rightarrow> if c = CHR ''-'' then - int (read_nat t) else int (read_nat s))"

text \<open>
  \<^verbatim>\<open>String(value)\<close> on a primitive value. A symbol is not refused here, as
  it is by an implicit conversion: the result is its descriptive string.
\<close>

fun number_text :: "number \<Rightarrow> string" where
  "number_text NumNaN = ''NaN''"
| "number_text NumInfinity = ''Infinity''"
| "number_text NumNegInfinity = ''-Infinity''"
| "number_text (NumFinite t) = t"

fun ToString :: "prim \<Rightarrow> string" where
  "ToString PUndefined = ''undefined''"
| "ToString PNull = ''null''"
| "ToString (PBool b) = (if b then ''true'' else ''false'')"
| "ToString (PNum n) = number_text n"
| "ToString (PBigInt i) = show_int i"
| "ToString (PStr s) = s"
| "ToString (PSymbol d) = ''Symbol('' @ (case d of None \<Rightarrow> [] | Some t \<Rightarrow> t) @ '')''"

text \<open>
  \<^verbatim>\<open>QuoteJSONString\<close>: the quotation mark, the backslash and the control
  characters are escaped, the short escapes first, the others as \<^verbatim>\<open>\u00XX\<close>
  with lower-case hexadecimal digits.
\<close>

definition hex_digit :: "nat \<Rightarrow> char" where
  "hex_digit d = ''0123456789abcdef'' ! d"

definition quote_unit :: "char \<Rightarrow> string" where
  "quote_unit c =
     (let n = of_char c :: nat in
      if n = 0x08 then [CHR 0x5C, CHR ''b'']
      else if n = 0x09 then [CHR 0x5C, CHR ''t'']
      else if n = 0x0A then [CHR 0x5C, CHR ''n'']
      else if n = 0x0C then [CHR 0x5C, CHR ''f'']
      else if n = 0x0D then [CHR 0x5C, CHR ''r'']
      else if n = 0x22 then [CHR 0x5C, CHR 0x22]
      else if n = 0x5C then [CHR 0x5C, CHR 0x5C]
      else if n < 0x20 then [CHR 0x5C, CHR ''u'', CHR ''0'', CHR ''0'', hex_digit (n div 16), hex_digit (n mod 16)]
      else [c])"

definition QuoteJSONString :: "string \<Rightarrow> string" where
  "QuoteJSONString s = CHR 0x22 # concat (map quote_unit s) @ [CHR 0x22]"

text \<open>
  The first step of \<^verbatim>\<open>SerializeJSONProperty\<close>: when the value is an object
  with a callable \<^verbatim>\<open>toJSON\<close>, the method is called and its result takes
  the place of the value; its exception is the exception of
  \<^verbatim>\<open>JSON.stringify\<close>. The method is not looked for again in the result.
\<close>

fun own_properties :: "jsval \<Rightarrow> (string \<times> jsval) list" where
  "own_properties (JObject props) = props"
| "own_properties (JError m props) = props"
| "own_properties _ = []"

definition toJSON_call :: "jsval \<Rightarrow> call option" where
  "toJSON_call v =
     (case map_of (own_properties v) ''toJSON'' of
        Some (JFunction src c) \<Rightarrow> Some c
      | _ \<Rightarrow> None)"

definition after_toJSON :: "jsval \<Rightarrow> exception + jsval" where
  "after_toJSON v =
     (case toJSON_call v of
        None \<Rightarrow> Inr v
      | Some (Returns r) \<Rightarrow> Inr r
      | Some (Throws e) \<Rightarrow> Inl e)"


text \<open>What \<^verbatim>\<open>toJSON\<close> returns is a part of the value, so it is smaller.\<close>

lemma map_of_size:
  "map_of props k = Some v \<Longrightarrow> size v \<le> size_list (size_prod (\<lambda>_. 0) size) props"
  by (induction props) (auto split: if_splits)

lemma after_toJSON_size: "after_toJSON v = Inr v' \<Longrightarrow> size v' \<le> size v"
proof (cases "toJSON_call v")
  case None
  then show "after_toJSON v = Inr v' \<Longrightarrow> size v' \<le> size v"
    by (simp add: after_toJSON_def)
next
  case (Some c)
  then obtain src where m: "map_of (own_properties v) ''toJSON'' = Some (JFunction src c)"
    by (auto simp: toJSON_call_def split: option.splits jsval.splits)
  then have "size (JFunction src c) \<le> size_list (size_prod (\<lambda>_. 0) size) (own_properties v)"
    by (rule map_of_size)
  moreover have "size_list (size_prod (\<lambda>_. 0) size) (own_properties v) \<le> size v"
    by (cases v) simp_all
  ultimately have "size c < size v"
    by simp
  moreover assume "after_toJSON v = Inr v'"
  ultimately show "size v' \<le> size v"
    using Some by (cases c) (auto simp: after_toJSON_def)
qed

text \<open>
  The rest of \<^verbatim>\<open>SerializeJSONProperty\<close>, for \<^verbatim>\<open>JSON.stringify(value)\<close>
  without replacer and indentation. The result is a string, or
  \<^verbatim>\<open>undefined\<close> (\<open>None\<close>) for \<^verbatim>\<open>undefined\<close>, a symbol and a function,
  or an exception: the \<^verbatim>\<open>TypeError\<close> of a BigInt and of a cycle. A number
  that is not finite is written \<^verbatim>\<open>null\<close>. A property of an object whose
  result is \<^verbatim>\<open>undefined\<close> is left out; an element of an array whose
  result is \<^verbatim>\<open>undefined\<close> is written \<^verbatim>\<open>null\<close>. An instance of
  \<^verbatim>\<open>Error\<close> is serialized as the object of its properties; its message
  is not enumerable.
\<close>

function SerializeJSONValue :: "jsval \<Rightarrow> exception + string option"
  and SerializeJSONObject :: "(string \<times> jsval) list \<Rightarrow> exception + string list"
  and SerializeJSONArray :: "jsval list \<Rightarrow> exception + string list"
where
  "SerializeJSONValue (JPrim PNull) = Inr (Some ''null'')"
| "SerializeJSONValue (JPrim (PBool b)) = Inr (Some (if b then ''true'' else ''false''))"
| "SerializeJSONValue (JPrim (PStr s)) = Inr (Some (QuoteJSONString s))"
| "SerializeJSONValue (JPrim (PNum n)) =
     Inr (Some (case n of NumFinite t \<Rightarrow> t | _ \<Rightarrow> ''null''))"
| "SerializeJSONValue (JPrim (PBigInt i)) = Inl TypeError"
| "SerializeJSONValue (JPrim PUndefined) = Inr None"
| "SerializeJSONValue (JPrim (PSymbol d)) = Inr None"
| "SerializeJSONValue (JFunction src c) = Inr None"
| "SerializeJSONValue JCycle = Inl TypeError"
| "SerializeJSONValue (JObject props) =
     (case SerializeJSONObject props of
        Inl e \<Rightarrow> Inl e
      | Inr members \<Rightarrow> Inr (Some (''{'' @ join '','' members @ ''}'')))"
| "SerializeJSONValue (JError m props) =
     (case SerializeJSONObject props of
        Inl e \<Rightarrow> Inl e
      | Inr members \<Rightarrow> Inr (Some (''{'' @ join '','' members @ ''}'')))"
| "SerializeJSONValue (JArray elems) =
     (case SerializeJSONArray elems of
        Inl e \<Rightarrow> Inl e
      | Inr items \<Rightarrow> Inr (Some (''['' @ join '','' items @ '']'')))"
| "SerializeJSONObject [] = Inr []"
| "SerializeJSONObject ((k, v) # rest) =
     (case after_toJSON v of
        Inl e \<Rightarrow> Inl e
      | Inr v' \<Rightarrow>
          (case SerializeJSONValue v' of
             Inl e \<Rightarrow> Inl e
           | Inr None \<Rightarrow> SerializeJSONObject rest
           | Inr (Some str) \<Rightarrow>
               (case SerializeJSONObject rest of
                  Inl e \<Rightarrow> Inl e
                | Inr members \<Rightarrow> Inr ((QuoteJSONString k @ '':'' @ str) # members))))"
| "SerializeJSONArray [] = Inr []"
| "SerializeJSONArray (v # rest) =
     (case after_toJSON v of
        Inl e \<Rightarrow> Inl e
      | Inr v' \<Rightarrow>
          (case SerializeJSONValue v' of
             Inl e \<Rightarrow> Inl e
           | Inr item \<Rightarrow>
               (case SerializeJSONArray rest of
                  Inl e \<Rightarrow> Inl e
                | Inr items \<Rightarrow> Inr ((case item of None \<Rightarrow> ''null'' | Some str \<Rightarrow> str) # items))))"
  by pat_completeness auto
termination
  by (relation "measure (\<lambda>x. case x of
         Inl v \<Rightarrow> size v
       | Inr (Inl props) \<Rightarrow> size_list (size_prod (\<lambda>_. 0) size) props
       | Inr (Inr elems) \<Rightarrow> size_list size elems)")
     (auto dest: after_toJSON_size)


definition SerializeJSONProperty :: "jsval \<Rightarrow> exception + string option" where
  "SerializeJSONProperty v =
     (case after_toJSON v of
        Inl e \<Rightarrow> Inl e
      | Inr v' \<Rightarrow> SerializeJSONValue v')"

definition JSON_stringify :: "jsval \<Rightarrow> exception + string option" where
  "JSON_stringify v = SerializeJSONProperty v"

text \<open>The operators \<^verbatim>\<open>typeof\<close> and \<^verbatim>\<open>instanceof Error\<close>.\<close>

fun typeof :: "jsval \<Rightarrow> string" where
  "typeof (JPrim PUndefined) = ''undefined''"
| "typeof (JPrim PNull) = ''object''"
| "typeof (JPrim (PBool b)) = ''boolean''"
| "typeof (JPrim (PNum n)) = ''number''"
| "typeof (JPrim (PBigInt i)) = ''bigint''"
| "typeof (JPrim (PStr s)) = ''string''"
| "typeof (JPrim (PSymbol d)) = ''symbol''"
| "typeof (JFunction src c) = ''function''"
| "typeof (JError m props) = ''object''"
| "typeof (JObject props) = ''object''"
| "typeof (JArray elems) = ''object''"
| "typeof JCycle = ''object''"

fun instanceof_Error :: "jsval \<Rightarrow> bool" where
  "instanceof_Error (JError m props) = True"
| "instanceof_Error _ = False"

text \<open>
  \<^verbatim>\<open>export type McpErrorResponse = {
    content: Array<{ type: "text"; text: string }>;
    isError: true;
  };\<close>
\<close>

record ContentBlock =
  block_type :: string
  block_text :: string

record McpErrorResponse =
  content :: "ContentBlock list"
  isError :: bool

text \<open>
  \<^verbatim>\<open>const rawMessage =
    error instanceof Error
      ? error.message
      : typeof error === "object" && error !== null
        ? JSON.stringify(error)
        : String(error);\<close>
  The first equation is the first branch; the message is taken as it is,
  string or not. The next three are the second branch (the values whose
  \<^verbatim>\<open>typeof\<close> is \<^verbatim>\<open>"object"\<close>, \<^verbatim>\<open>null\<close> and the instances of
  \<^verbatim>\<open>Error\<close> apart), where the result of \<^verbatim>\<open>JSON.stringify\<close> may be
  \<^verbatim>\<open>undefined\<close>. The last two are \<^verbatim>\<open>String(error)\<close> on the values
  that are left: the primitive values and the functions.
\<close>

fun rawMessage :: "jsval \<Rightarrow> exception + prim" where
  "rawMessage (JError m props) = Inr m"
| "rawMessage (JObject props) =
     (case JSON_stringify (JObject props) of
        Inl e \<Rightarrow> Inl e | Inr None \<Rightarrow> Inr PUndefined | Inr (Some str) \<Rightarrow> Inr (PStr str))"
| "rawMessage (JArray elems) =
     (case JSON_stringify (JArray elems) of
        Inl e \<Rightarrow> Inl e | Inr None \<Rightarrow> Inr PUndefined | Inr (Some str) \<Rightarrow> Inr (PStr str))"
| "rawMessage JCycle =
     (case JSON_stringify JCycle of
        Inl e \<Rightarrow> Inl e | Inr None \<Rightarrow> Inr PUndefined | Inr (Some str) \<Rightarrow> Inr (PStr str))"
| "rawMessage (JPrim p) = Inr (PStr (ToString p))"
| "rawMessage (JFunction src c) = Inr (PStr src)"

text \<open>
  \<^verbatim>\<open>export function handleKomodoError(context: string, error: unknown): McpErrorResponse {
    const rawMessage = ...;
    const safeMessage = sanitizeMessage(rawMessage);
    return {
      content: [{ type: "text", text: `Error ${context}: ${safeMessage}` }],
      isError: true,
    };
  }\<close>
  An exception of \<^verbatim>\<open>JSON.stringify\<close> is not caught. When the raw message
  is not a string, the first method call of \<^verbatim>\<open>sanitizeMessage\<close> on it
  (\<^verbatim>\<open>replaceAll\<close>, or \<^verbatim>\<open>replace\<close> when no secret is registered) throws a
  \<^verbatim>\<open>TypeError\<close>: a primitive value that is not a string has no such method.
\<close>

definition handleKomodoError :: "string list \<Rightarrow> string \<Rightarrow> jsval \<Rightarrow> exception + McpErrorResponse" where
  "handleKomodoError patterns context error =
     (case rawMessage error of
        Inl e \<Rightarrow> Inl e
      | Inr raw \<Rightarrow>
          (case raw of
             PStr message \<Rightarrow>
               (let safeMessage = sanitizeMessage patterns message in
                Inr \<lparr> content = [\<lparr> block_type = ''text'',
                                     block_text = ''Error '' @ context @ '': '' @ safeMessage \<rparr>],
                      isError = True \<rparr>)
           | _ \<Rightarrow> Inl TypeError))"

text \<open>
  The vocabulary of the properties below. \<open>error_response\<close> is the response
  the specification describes. \<open>serializable\<close> says of a value, taken after
  its own \<^verbatim>\<open>toJSON\<close>, that \<^verbatim>\<open>JSON.stringify\<close> meets in it no BigInt, no
  reference to an enclosing object and no \<^verbatim>\<open>toJSON\<close> that throws;
  \<open>omitted\<close> are the values without a JSON text. \<open>stringifies\<close> says that
  \<^verbatim>\<open>JSON.stringify\<close> has a string to return, and \<open>normalizable\<close> that the
  raw message of the value is a string. Two strings do not overlap when, in
  whatever text \<open>t\<close> is put, no occurrence of \<open>s\<close> shares a character with
  it: \<open>s\<close> is not inside \<open>t\<close>, \<open>t\<close> is not inside \<open>s\<close>, no non-empty end of
  \<open>s\<close> begins \<open>t\<close> and no non-empty beginning of \<open>s\<close> ends \<open>t\<close>.
\<close>

definition error_response :: "string \<Rightarrow> string \<Rightarrow> McpErrorResponse" where
  "error_response context safeMessage =
     \<lparr> content = [\<lparr> block_type = ''text'', block_text = ''Error '' @ context @ '': '' @ safeMessage \<rparr>],
       isError = True \<rparr>"

fun omitted :: "jsval \<Rightarrow> bool" where
  "omitted (JPrim PUndefined) = True"
| "omitted (JPrim (PSymbol d)) = True"
| "omitted (JFunction src c) = True"
| "omitted _ = False"

function serializable :: "jsval \<Rightarrow> bool"
  and serializable_props :: "(string \<times> jsval) list \<Rightarrow> bool"
  and serializable_elems :: "jsval list \<Rightarrow> bool"
where
  "serializable (JPrim p) = (case p of PBigInt i \<Rightarrow> False | _ \<Rightarrow> True)"
| "serializable (JFunction src c) = True"
| "serializable JCycle = False"
| "serializable (JObject props) = serializable_props props"
| "serializable (JError m props) = serializable_props props"
| "serializable (JArray elems) = serializable_elems elems"
| "serializable_props [] = True"
| "serializable_props ((k, v) # rest) =
     (case after_toJSON v of
        Inl e \<Rightarrow> False
      | Inr v' \<Rightarrow> if serializable v' then serializable_props rest else False)"
| "serializable_elems [] = True"
| "serializable_elems (v # rest) =
     (case after_toJSON v of
        Inl e \<Rightarrow> False
      | Inr v' \<Rightarrow> if serializable v' then serializable_elems rest else False)"
  by pat_completeness auto
termination
  by (relation "measure (\<lambda>x. case x of
         Inl v \<Rightarrow> size v
       | Inr (Inl props) \<Rightarrow> size_list (size_prod (\<lambda>_. 0) size) props
       | Inr (Inr elems) \<Rightarrow> size_list size elems)")
     (auto dest: after_toJSON_size)

definition stringifies :: "jsval \<Rightarrow> bool" where
  "stringifies v =
     (case after_toJSON v of
        Inl e \<Rightarrow> False
      | Inr v' \<Rightarrow> serializable v' \<and> \<not> omitted v')"

fun normalizable :: "jsval \<Rightarrow> bool" where
  "normalizable (JError m props) = (case m of PStr s \<Rightarrow> True | _ \<Rightarrow> False)"
| "normalizable (JObject props) = stringifies (JObject props)"
| "normalizable (JArray elems) = stringifies (JArray elems)"
| "normalizable JCycle = stringifies JCycle"
| "normalizable (JPrim p) = True"
| "normalizable (JFunction src c) = True"

definition no_overlap :: "string \<Rightarrow> string \<Rightarrow> bool" where
  "no_overlap s t \<longleftrightarrow>
     \<not> sublist s t \<and> \<not> sublist t s
     \<and> list_all (\<lambda>w. w = [] \<or> \<not> prefix w t) (suffixes s)
     \<and> list_all (\<lambda>w. w = [] \<or> \<not> suffix w t) (prefixes s)"

text \<open>
  The vocabulary of the idempotence proof. \<open>header_stage\<close> is the second
  half of \<open>sanitizeMessage\<close>, the three header replacements in their order.
  \<open>header_repl h\<close> is the replacement the source writes for the header literal
  \<open>h\<close>, and \<open>canon\<close> the canonical form of a text. A text is \<open>sp\<close> when it
  is empty or begins with white space, as what follows a match does. A
  literal is \<open>header_like\<close> when it is not empty, has no white space, and
  occurs in its own replacement at the start only; two literals are \<open>apart\<close>
  when neither occurs in the replacement of the other. A text is
  \<open>settled\<close> for \<open>h\<close> when every match of the expression of \<open>h\<close> in it
  is the replacement itself.
\<close>

definition header_stage :: "string \<Rightarrow> string" where
  "header_stage s =
     replace_header ''authorization:'' ''authorization: [REDACTED]''
       (replace_header ''x-api-secret:'' ''x-api-secret: [REDACTED]''
          (replace_header ''x-api-key:'' ''x-api-key: [REDACTED]'' s))"

definition header_repl :: "string \<Rightarrow> string" where
  "header_repl h = h @ '' [REDACTED]''"

definition canon :: "string \<Rightarrow> string" where
  "canon s = map canonicalize s"

definition sp :: "string \<Rightarrow> bool" where
  "sp w \<longleftrightarrow> (case w of [] \<Rightarrow> True | c # cs \<Rightarrow> is_space c)"

definition header_like :: "string \<Rightarrow> bool" where
  "header_like h \<longleftrightarrow>
     h \<noteq> [] \<and> list_all (\<lambda>p. \<not> is_space (canonicalize p)) h
     \<and> \<not> sublist (canon h) (tl (canon (header_repl h)))"

definition apart :: "string \<Rightarrow> string \<Rightarrow> bool" where
  "apart h g \<longleftrightarrow> \<not> sublist (canon h) (canon (header_repl g)) \<and> \<not> sublist (canon g) (canon (header_repl h))"

definition settled :: "string \<Rightarrow> string \<Rightarrow> bool" where
  "settled h z \<longleftrightarrow> (\<forall>v rest. suffix v z \<longrightarrow> match_header h v = Some rest \<longrightarrow> v = header_repl h @ rest)"


section \<open>The gate: properties\<close>

lemma registerTool_accept:
  "tier_allows config options \<Longrightarrow> category_allows config options \<Longrightarrow>
   registerTool server config options = (server @ [tool_entry options], True)"
  by (auto simp: registerTool_def tier_allows_def category_allows_def split: option.splits)

lemma registerTool_reject:
  "\<not> (tier_allows config options \<and> category_allows config options) \<Longrightarrow>
   registerTool server config options = (server, False)"
  by (auto simp: registerTool_def tier_allows_def category_allows_def split: option.splits)

lemma full_tier_allows:
  "tool_accessTier options = Full \<Longrightarrow> tier_allows config options \<longleftrightarrow> accessTier config = Full"
  by (cases "accessTier config") (simp_all add: tier_allows_def)

text \<open>
  C2. \<open>registerTool\<close> returns true exactly when the configured tier is at
  least the tool's tier and the category allowlist is null or contains the
  tool's category; it hands the tool to the server exactly then, and leaves
  the server as it was otherwise. For a tool that requires \<open>full\<close> the tier
  filter passes exactly under \<open>full\<close>: such a tool is never registered under
  \<open>read-only\<close> or \<open>read-execute\<close>, and with no allowlist it is registered
  exactly under \<open>full\<close>.
\<close>

theorem registerTool_iff:
  "(snd (registerTool server config options) \<longleftrightarrow>
      tier_allows config options \<and> category_allows config options)
   \<and> fst (registerTool server config options) =
       (if snd (registerTool server config options) then server @ [tool_entry options] else server)
   \<and> (tool_accessTier options = Full \<longrightarrow>
        (snd (registerTool server config options) \<longleftrightarrow>
           accessTier config = Full \<and> category_allows config options)
        \<and> (accessTier config \<noteq> Full \<longrightarrow> \<not> snd (registerTool server config options))
        \<and> (categories config = None \<longrightarrow>
             (snd (registerTool server config options) \<longleftrightarrow> accessTier config = Full)))"
proof (cases "tier_allows config options \<and> category_allows config options")
  case True
  then have "registerTool server config options = (server @ [tool_entry options], True)"
    by (simp add: registerTool_accept)
  with True show ?thesis
    by (auto simp: full_tier_allows)
next
  case False
  then have "registerTool server config options = (server, False)"
    by (rule registerTool_reject)
  with False show ?thesis
    by (auto simp: full_tier_allows category_allows_def)
qed

theorem registerTool_iff_witness:
  "snd (registerTool []
          \<lparr> url = ''http://komodo'', apiKey = ''K-1'', apiSecret = ''S-1'',
            accessTier = Full, categories = Some [''servers''], debug = False \<rparr>
          \<lparr> name = ''komodo_write_resource'', description = ''write'',
            tool_accessTier = Full, category = ''servers'', annotations = None,
            inputSchema = None :: unit option, handler = () \<rparr>)
   \<and> \<not> snd (registerTool []
          \<lparr> url = ''http://komodo'', apiKey = ''K-1'', apiSecret = ''S-1'',
            accessTier = ReadExecute, categories = None, debug = False \<rparr>
          \<lparr> name = ''komodo_write_resource'', description = ''write'',
            tool_accessTier = Full, category = ''servers'', annotations = None,
            inputSchema = None :: unit option, handler = () \<rparr>)"
  using registerTool_iff [of "[]"
          "\<lparr> url = ''http://komodo'', apiKey = ''K-1'', apiSecret = ''S-1'',
            accessTier = Full, categories = Some [''servers''], debug = False \<rparr>"
          "\<lparr> name = ''komodo_write_resource'', description = ''write'',
            tool_accessTier = Full, category = ''servers'', annotations = None,
            inputSchema = None :: unit option, handler = () \<rparr>"]
        registerTool_iff [of "[]"
          "\<lparr> url = ''http://komodo'', apiKey = ''K-1'', apiSecret = ''S-1'',
            accessTier = ReadExecute, categories = None, debug = False \<rparr>"
          "\<lparr> name = ''komodo_write_resource'', description = ''write'',
            tool_accessTier = Full, category = ''servers'', annotations = None,
            inputSchema = None :: unit option, handler = () \<rparr>"]
  by (simp add: category_allows_def tier_allows_def)

lemma registered_names_registerTool:
  "registered_names (fst (registerTool server config options)) =
     registered_names server \<union>
       (if tier_allows config options \<and> category_allows config options then {name options} else {})"
proof (cases "tier_allows config options \<and> category_allows config options")
  case True
  then show ?thesis
    by (simp add: registerTool_accept registered_names_def tool_entry_def)
next
  case False
  then have "registerTool server config options = (server, False)"
    by (rule registerTool_reject)
  with False show ?thesis
    by auto
qed

lemma registered_names_registerTools:
  "registered_names (registerTools server config ds) =
     registered_names server \<union>
       name ` {d \<in> set ds. tier_allows config d \<and> category_allows config d}"
proof (induction ds arbitrary: server)
  case Nil
  show ?case by simp
next
  case (Cons d ds)
  show ?case
    unfolding registerTools.simps Cons.IH registered_names_registerTool
    by auto
qed

text \<open>
  C3. Tier monotonicity: for a fixed list of descriptors and two
  configurations with the same category allowlist, the tool names registered
  under the lower tier are among those registered under the higher tier.
\<close>

theorem tier_monotone:
  assumes "TIER_LEVELS (accessTier c1) \<le> TIER_LEVELS (accessTier c2)"
    and "categories c1 = categories c2"
  shows "registered_names (registerTools server c1 ds) \<subseteq> registered_names (registerTools server c2 ds)"
proof -
  have "tier_allows c1 d \<and> category_allows c1 d \<Longrightarrow> tier_allows c2 d \<and> category_allows c2 d" for d :: "('a, 'b) ToolRegistrationOptions"
    using assms by (auto simp: tier_allows_def category_allows_def)
  then show ?thesis
    unfolding registered_names_registerTools by blast
qed

theorem tier_monotone_witness:
  "TIER_LEVELS (accessTier \<lparr> url = ''http://komodo'', apiKey = ''K-1'', apiSecret = ''S-1'',
            accessTier = ReadOnly, categories = Some [''actions''], debug = False \<rparr>)
     \<le> TIER_LEVELS (accessTier \<lparr> url = ''http://komodo'', apiKey = ''K-1'', apiSecret = ''S-1'',
            accessTier = ReadExecute, categories = Some [''actions''], debug = False \<rparr>)
   \<and> registered_names (registerTools []
        \<lparr> url = ''http://komodo'', apiKey = ''K-1'', apiSecret = ''S-1'',
          accessTier = ReadOnly, categories = Some [''actions''], debug = False \<rparr>
        [\<lparr> name = ''komodo_list_actions'', description = ''list'', tool_accessTier = ReadOnly,
           category = ''actions'', annotations = None, inputSchema = None :: unit option, handler = () \<rparr>,
         \<lparr> name = ''komodo_run_action'', description = ''run'', tool_accessTier = ReadExecute,
           category = ''actions'', annotations = None, inputSchema = None, handler = () \<rparr>])
     \<subseteq> registered_names (registerTools []
        \<lparr> url = ''http://komodo'', apiKey = ''K-1'', apiSecret = ''S-1'',
          accessTier = ReadExecute, categories = Some [''actions''], debug = False \<rparr>
        [\<lparr> name = ''komodo_list_actions'', description = ''list'', tool_accessTier = ReadOnly,
           category = ''actions'', annotations = None, inputSchema = None :: unit option, handler = () \<rparr>,
         \<lparr> name = ''komodo_run_action'', description = ''run'', tool_accessTier = ReadExecute,
           category = ''actions'', annotations = None, inputSchema = None, handler = () \<rparr>])"
  using tier_monotone [of
        "\<lparr> url = ''http://komodo'', apiKey = ''K-1'', apiSecret = ''S-1'',
          accessTier = ReadOnly, categories = Some [''actions''], debug = False \<rparr>"
        "\<lparr> url = ''http://komodo'', apiKey = ''K-1'', apiSecret = ''S-1'',
          accessTier = ReadExecute, categories = Some [''actions''], debug = False \<rparr>"
        "[]"
        "[\<lparr> name = ''komodo_list_actions'', description = ''list'', tool_accessTier = ReadOnly,
           category = ''actions'', annotations = None, inputSchema = None :: unit option, handler = () \<rparr>,
         \<lparr> name = ''komodo_run_action'', description = ''run'', tool_accessTier = ReadExecute,
           category = ''actions'', annotations = None, inputSchema = None, handler = () \<rparr>]"]
  by simp


section \<open>The configuration loader: properties\<close>

lemma loadConfig_eq:
  "loadConfig env =
     (if missing_vars env \<noteq> [] then Inl (Error (missing_message (missing_vars env)))
      else Inr \<lparr> url = stripTrailingSlashes (the (env ''KOMODO_URL'')),
                 apiKey = the (env ''KOMODO_API_KEY''),
                 apiSecret = the (env ''KOMODO_API_SECRET''),
                 accessTier = parseAccessTier env,
                 categories = parseCategories (env ''KOMODO_CATEGORIES''),
                 debug = truthy (env ''DEBUG'') \<rparr>)"
  by (simp add: loadConfig_def missing_vars_def required_vars_def missing_message_def Let_def)

lemma sublist_join: "x \<in> set xs \<Longrightarrow> sublist x (join sep xs)"
proof (induction sep xs rule: join.induct)
  case (3 sep a b ys)
  show ?case
  proof (cases "x = a")
    case True
    then show ?thesis by simp
  next
    case False
    with 3 have "sublist x (join sep (b # ys))" by auto
    then show ?thesis
      by (metis join.simps(3) sublist_append append.assoc sublist_order.order.trans sublist_append_leftI)
  qed
qed simp_all


lemma split_nonempty: "split sep s \<noteq> []"
  by (induction s) (auto split: list.splits)

lemma join_split: "join [sep] (split sep s) = s"
proof (induction s)
  case Nil
  show ?case by simp
next
  case (Cons c cs)
  obtain seg segs where sp: "split sep cs = seg # segs"
    using split_nonempty [of sep cs] by (cases "split sep cs") auto
  with Cons show ?case
    by (cases segs) auto
qed

lemma split_sep_free: "seg \<in> set (split sep s) \<Longrightarrow> sep \<notin> set seg"
proof (induction s arbitrary: seg)
  case Nil
  then show ?case by simp
next
  case (Cons c cs)
  obtain x xs where sp: "split sep cs = x # xs"
    using split_nonempty [of sep cs] by (cases "split sep cs") auto
  with Cons show ?case
    by (auto split: if_splits)
qed

lemma trim_trimmed: "trimmed_of s (trim s)"
proof -
  define d where "d = dropWhile is_space s"
  define l where "l = takeWhile is_space s"
  define r where "r = rev (takeWhile is_space (rev d))"
  have t: "trim s = rev (dropWhile is_space (rev d))"
    by (simp add: trim_def d_def)
  have "d = rev (dropWhile is_space (rev d)) @ rev (takeWhile is_space (rev d))"
    by (metis rev_append rev_rev_ident takeWhile_dropWhile_id)
  then have d: "d = trim s @ r"
    by (simp only: t r_def)
  have "s = l @ d"
    by (simp add: l_def d_def)
  with d have s: "s = l @ trim s @ r"
    by simp
  have l: "list_all is_space l"
    unfolding l_def list_all_iff by (auto dest: set_takeWhileD)
  have r: "list_all is_space r"
    unfolding r_def list_all_iff by (auto dest: set_takeWhileD)
  have ends: "\<not> is_space (hd (trim s)) \<and> \<not> is_space (last (trim s))" if ne: "trim s \<noteq> []"
  proof
    from ne d have "d \<noteq> []" by auto
    then have "\<not> is_space (hd d)"
      unfolding d_def by (rule hd_dropWhile)
    moreover have "hd d = hd (trim s)"
      using d ne by (metis hd_append2)
    ultimately show "\<not> is_space (hd (trim s))" by simp
    from ne have "dropWhile is_space (rev d) \<noteq> []" by (simp add: t)
    then have "\<not> is_space (hd (dropWhile is_space (rev d)))"
      by (rule hd_dropWhile)
    then show "\<not> is_space (last (trim s))"
      using ne by (simp add: t last_rev)
  qed
  show ?thesis
    unfolding trimmed_of_def using s l r ends by blast
qed

text \<open>
  C7. When a required variable (endpoint URL, API key, API secret) is absent,
  \<open>loadConfig\<close> fails with one error; its message names every missing
  variable, and it is the same for every environment with the same missing
  variables, so it carries no value of the environment. When the three are
  set (to non-empty values), loading succeeds with the credentials as given
  and the URL as given up to its trailing slashes.
\<close>

theorem loadConfig_required:
  "((\<exists>v\<in>set required_vars. env v = None) \<longrightarrow>
      (\<exists>msg. loadConfig env = Inl (Error msg)
         \<and> (\<forall>v\<in>set required_vars. \<not> truthy (env v) \<longrightarrow> sublist v msg)
         \<and> (\<forall>env'. missing_vars env' = missing_vars env \<longrightarrow> loadConfig env' = Inl (Error msg))))
   \<and> ((\<forall>v\<in>set required_vars. truthy (env v)) \<longrightarrow>
      (\<exists>cfg u. loadConfig env = Inr cfg
         \<and> env ''KOMODO_URL'' = Some u \<and> url cfg = stripTrailingSlashes u
         \<and> env ''KOMODO_API_KEY'' = Some (apiKey cfg)
         \<and> env ''KOMODO_API_SECRET'' = Some (apiSecret cfg)))"
proof (intro conjI impI)
  assume "\<exists>v\<in>set required_vars. env v = None"
  then obtain v where "v \<in> set required_vars" "env v = None"
    by blast
  then have "v \<in> set (missing_vars env)"
    by (simp add: missing_vars_def truthy_def)
  then have ne: "missing_vars env \<noteq> []"
    by auto
  let ?msg = "missing_message (missing_vars env)"
  have 1: "loadConfig env = Inl (Error ?msg)"
    using ne by (simp add: loadConfig_eq)
  have 2: "sublist v ?msg" if "v \<in> set required_vars" "\<not> truthy (env v)" for v
  proof -
    from that have "v \<in> set (missing_vars env)"
      by (simp add: missing_vars_def)
    then have "sublist v (join '', '' (missing_vars env))"
      by (rule sublist_join)
    then show ?thesis
      unfolding missing_message_def by (meson sublist_append)
  qed
  have 3: "loadConfig env' = Inl (Error ?msg)" if "missing_vars env' = missing_vars env" for env'
    using that ne by (simp add: loadConfig_eq)
  from 1 2 3 show "\<exists>msg. loadConfig env = Inl (Error msg)
         \<and> (\<forall>v\<in>set required_vars. \<not> truthy (env v) \<longrightarrow> sublist v msg)
         \<and> (\<forall>env'. missing_vars env' = missing_vars env \<longrightarrow> loadConfig env' = Inl (Error msg))"
    by blast
next
  assume all: "\<forall>v\<in>set required_vars. truthy (env v)"
  then have "missing_vars env = []"
    by (simp add: missing_vars_def filter_empty_conv)
  moreover from all obtain u k s where "env ''KOMODO_URL'' = Some u" "env ''KOMODO_API_KEY'' = Some k"
      "env ''KOMODO_API_SECRET'' = Some s"
    by (auto simp: required_vars_def truthy_def split: option.splits)
  ultimately show "\<exists>cfg u. loadConfig env = Inr cfg
         \<and> env ''KOMODO_URL'' = Some u \<and> url cfg = stripTrailingSlashes u
         \<and> env ''KOMODO_API_KEY'' = Some (apiKey cfg)
         \<and> env ''KOMODO_API_SECRET'' = Some (apiSecret cfg)"
    by (simp add: loadConfig_eq)
qed

theorem loadConfig_required_witness:
  "(\<exists>v\<in>set required_vars. [''KOMODO_API_KEY'' \<mapsto> ''K-1''] v = None)
   \<and> (\<exists>msg. loadConfig [''KOMODO_API_KEY'' \<mapsto> ''K-1''] = Inl (Error msg)
         \<and> sublist ''KOMODO_URL'' msg \<and> sublist ''KOMODO_API_SECRET'' msg)
   \<and> list_all (\<lambda>v. truthy ([''KOMODO_URL'' \<mapsto> ''http://komodo/'', ''KOMODO_API_KEY'' \<mapsto> ''K-1'',
                  ''KOMODO_API_SECRET'' \<mapsto> ''S-1''] v)) required_vars
   \<and> (\<exists>cfg. loadConfig [''KOMODO_URL'' \<mapsto> ''http://komodo/'', ''KOMODO_API_KEY'' \<mapsto> ''K-1'',
                  ''KOMODO_API_SECRET'' \<mapsto> ''S-1''] = Inr cfg
         \<and> url cfg = ''http://komodo'' \<and> apiKey cfg = ''K-1'' \<and> apiSecret cfg = ''S-1'')"
  using loadConfig_required [of "[''KOMODO_API_KEY'' \<mapsto> ''K-1'']"]
    loadConfig_required [of "[''KOMODO_URL'' \<mapsto> ''http://komodo/'', ''KOMODO_API_KEY'' \<mapsto> ''K-1'',
                  ''KOMODO_API_SECRET'' \<mapsto> ''S-1'']"]
  by (auto simp: required_vars_def truthy_def)

text \<open>
  C10. A required variable set to the empty string is treated as an absent
  one: loading gives the same result as without it, which is the error that
  names the variable. So no configuration that is returned has an empty
  credential.
\<close>

theorem loadConfig_empty_is_missing:
  "(v \<in> set required_vars \<longrightarrow>
      loadConfig (env(v \<mapsto> [])) = loadConfig (env(v := None))
      \<and> (\<exists>msg. loadConfig (env(v \<mapsto> [])) = Inl (Error msg) \<and> sublist v msg))
   \<and> (loadConfig env = Inr cfg \<longrightarrow> apiKey cfg \<noteq> [] \<and> apiSecret cfg \<noteq> [])"
proof (intro conjI impI)
  assume v: "v \<in> set required_vars"
  have same: "missing_vars (env(v \<mapsto> [])) = missing_vars (env(v := None))"
    by (simp add: missing_vars_def truthy_def)
  have mem: "v \<in> set (missing_vars (env(v \<mapsto> [])))"
    using v by (simp add: missing_vars_def truthy_def)
  then have ne: "missing_vars (env(v \<mapsto> [])) \<noteq> []"
    by auto
  have "sublist v (join '', '' (missing_vars (env(v \<mapsto> []))))"
    using mem by (rule sublist_join)
  then have sub: "sublist v (missing_message (missing_vars (env(v \<mapsto> []))))"
    unfolding missing_message_def by (meson sublist_append)
  from ne same show "loadConfig (env(v \<mapsto> [])) = loadConfig (env(v := None))"
    by (simp add: loadConfig_eq)
  from ne sub show "\<exists>msg. loadConfig (env(v \<mapsto> [])) = Inl (Error msg) \<and> sublist v msg"
    by (simp add: loadConfig_eq)
next
  assume ok: "loadConfig env = Inr cfg"
  then have none: "missing_vars env = []"
    by (auto simp: loadConfig_eq split: if_splits)
  then have t: "truthy (env ''KOMODO_API_KEY'')" "truthy (env ''KOMODO_API_SECRET'')"
    by (auto simp: missing_vars_def required_vars_def split: if_splits)
  from ok none have "apiKey cfg = the (env ''KOMODO_API_KEY'')"
    and "apiSecret cfg = the (env ''KOMODO_API_SECRET'')"
    by (auto simp: loadConfig_eq)
  with t show "apiKey cfg \<noteq> []" and "apiSecret cfg \<noteq> []"
    by (auto simp: truthy_def split: option.splits)
qed

theorem loadConfig_empty_is_missing_witness:
  "''KOMODO_API_SECRET'' \<in> set required_vars
   \<and> loadConfig [''KOMODO_URL'' \<mapsto> ''http://komodo'', ''KOMODO_API_KEY'' \<mapsto> ''K-1'',
                  ''KOMODO_API_SECRET'' \<mapsto> []]
     = Inl (Error (''Missing required environment variables: KOMODO_API_SECRET. ''
                   @ ''Set these variables to connect to your Komodo instance.''))
   \<and> loadConfig [''KOMODO_URL'' \<mapsto> ''http://komodo'', ''KOMODO_API_KEY'' \<mapsto> ''K-1'',
                  ''KOMODO_API_SECRET'' \<mapsto> ''S-1'']
     = Inr \<lparr> url = ''http://komodo'', apiKey = ''K-1'', apiSecret = ''S-1'',
             accessTier = Full, categories = None, debug = False \<rparr>
   \<and> ''K-1'' \<noteq> [] \<and> ''S-1'' \<noteq> []"
  using loadConfig_empty_is_missing [of "''KOMODO_API_SECRET''"
          "[''KOMODO_URL'' \<mapsto> ''http://komodo'', ''KOMODO_API_KEY'' \<mapsto> ''K-1'']"]
    loadConfig_empty_is_missing [of "''KOMODO_API_SECRET''"
          "[''KOMODO_URL'' \<mapsto> ''http://komodo'', ''KOMODO_API_KEY'' \<mapsto> ''K-1'',
            ''KOMODO_API_SECRET'' \<mapsto> ''S-1'']"
          "\<lparr> url = ''http://komodo'', apiKey = ''K-1'', apiSecret = ''S-1'',
             accessTier = Full, categories = None, debug = False \<rparr>"]
  by (simp add: required_vars_def loadConfig_def truthy_def parseAccessTier_def parseCategories_def)


text \<open>
  C8. The category allowlist: an absent or empty value gives \<^verbatim>\<open>null\<close>,
  which differs from the empty list; any other value is cut at the commas
  into comma-free segments, each segment is trimmed, and the empty ones are
  dropped. Under the empty list the gate registers no tool, under
  \<^verbatim>\<open>null\<close> the category filter lets every tool pass.
\<close>

theorem parseCategories_spec:
  "parseCategories None = None \<and> parseCategories (Some []) = None
   \<and> (None :: string list option) \<noteq> Some []
   \<and> (v \<noteq> [] \<longrightarrow>
        (\<exists>segs. join '','' segs = v \<and> (\<forall>s\<in>set segs. CHR '','' \<notin> set s)
           \<and> parseCategories (Some v) = Some (filter (\<lambda>t. t \<noteq> []) (map trim segs))))
   \<and> trimmed_of s (trim s)
   \<and> \<not> snd (registerTool server (config\<lparr>categories := Some []\<rparr>) options)
   \<and> category_allows (config\<lparr>categories := None\<rparr>) options"
proof -
  have "\<exists>segs. join '','' segs = v \<and> (\<forall>s\<in>set segs. CHR '','' \<notin> set s)
           \<and> parseCategories (Some v) = Some (filter (\<lambda>t. t \<noteq> []) (map trim segs))" if "v \<noteq> []"
  proof (intro exI conjI)
    show "join '','' (split CHR '','' v) = v"
      by (rule join_split)
    show "\<forall>s\<in>set (split CHR '','' v). CHR '','' \<notin> set s"
      by (simp add: split_sep_free)
    show "parseCategories (Some v) = Some (filter (\<lambda>t. t \<noteq> []) (map trim (split CHR '','' v)))"
      using that by (simp add: parseCategories_def)
  qed
  moreover have "\<not> snd (registerTool server (config\<lparr>categories := Some []\<rparr>) options)"
    by (simp add: registerTool_def)
  moreover have "category_allows (config\<lparr>categories := None\<rparr>) options"
    by (simp add: category_allows_def)
  ultimately show ?thesis
    by (simp add: parseCategories_def trim_trimmed)
qed

theorem parseCategories_spec_witness:
  "'' servers, ,stacks,'' \<noteq> []
   \<and> parseCategories (Some '' servers, ,stacks,'') = Some [''servers'', ''stacks'']
   \<and> (\<exists>segs. join '','' segs = '' servers, ,stacks,''
         \<and> parseCategories (Some '' servers, ,stacks,'') = Some (filter (\<lambda>t. t \<noteq> []) (map trim segs)))"
proof -
  have "parseCategories (Some '' servers, ,stacks,'') = Some [''servers'', ''stacks'']"
    by (simp add: parseCategories_def trim_def is_space_def)
  moreover have "\<exists>segs. join '','' segs = '' servers, ,stacks,''
         \<and> parseCategories (Some '' servers, ,stacks,'') = Some (filter (\<lambda>t. t \<noteq> []) (map trim segs))"
    using parseCategories_spec [where v = "'' servers, ,stacks,''" and s = "[]" and server = "[]"]
    by blast
  ultimately show ?thesis
    by simp
qed

text \<open>
  C9. \<^verbatim>\<open>read-only\<close> and \<^verbatim>\<open>read-execute\<close> are returned as they are; every
  other value of the variable, and its absence, gives \<^verbatim>\<open>full\<close>, the
  tier of the highest rank. The loader puts this tier into the configuration.
\<close>

theorem parseAccessTier_permissive_default:
  "(env ''KOMODO_ACCESS_TIER'' = Some t \<and> (t = ''read-only'' \<or> t = ''read-execute'')
      \<longrightarrow> tier_name (parseAccessTier env) = t)
   \<and> (env ''KOMODO_ACCESS_TIER'' \<noteq> Some ''read-only'' \<and> env ''KOMODO_ACCESS_TIER'' \<noteq> Some ''read-execute''
      \<longrightarrow> parseAccessTier env = Full \<and> tier_name (parseAccessTier env) = ''full''
          \<and> (\<forall>t'. TIER_LEVELS t' \<le> TIER_LEVELS (parseAccessTier env)))
   \<and> (loadConfig env = Inr cfg \<longrightarrow> accessTier cfg = parseAccessTier env)"
proof (intro conjI impI)
  assume "env ''KOMODO_ACCESS_TIER'' = Some t \<and> (t = ''read-only'' \<or> t = ''read-execute'')"
  then show "tier_name (parseAccessTier env) = t"
    by (auto simp: parseAccessTier_def)
next
  assume a: "env ''KOMODO_ACCESS_TIER'' \<noteq> Some ''read-only'' \<and> env ''KOMODO_ACCESS_TIER'' \<noteq> Some ''read-execute''"
  then show full: "parseAccessTier env = Full"
    by (simp add: parseAccessTier_def)
  then show "tier_name (parseAccessTier env) = ''full''"
    by simp
  show "\<forall>t'. TIER_LEVELS t' \<le> TIER_LEVELS (parseAccessTier env)"
  proof
    fix t' show "TIER_LEVELS t' \<le> TIER_LEVELS (parseAccessTier env)"
      unfolding full by (cases t') simp_all
  qed
next
  assume "loadConfig env = Inr cfg"
  then show "accessTier cfg = parseAccessTier env"
    by (auto simp: loadConfig_eq split: if_splits)
qed

theorem parseAccessTier_permissive_default_witness:
  "[''KOMODO_ACCESS_TIER'' \<mapsto> ''read_only''] ''KOMODO_ACCESS_TIER'' \<noteq> Some ''read-only''
   \<and> [''KOMODO_ACCESS_TIER'' \<mapsto> ''read_only''] ''KOMODO_ACCESS_TIER'' \<noteq> Some ''read-execute''
   \<and> parseAccessTier [''KOMODO_ACCESS_TIER'' \<mapsto> ''read_only''] = Full
   \<and> [''KOMODO_ACCESS_TIER'' \<mapsto> ''read-execute''] ''KOMODO_ACCESS_TIER'' = Some ''read-execute''
   \<and> tier_name (parseAccessTier [''KOMODO_ACCESS_TIER'' \<mapsto> ''read-execute'']) = ''read-execute''"
  using parseAccessTier_permissive_default [of "[''KOMODO_ACCESS_TIER'' \<mapsto> ''read_only'']" "''read-only''"]
    parseAccessTier_permissive_default [of "[''KOMODO_ACCESS_TIER'' \<mapsto> ''read-execute'']" "''read-execute''"]
  by simp


section \<open>The sanitizer and the error wrapper: properties\<close>

text \<open>
  Putting \<open>t\<close> between two texts without \<open>s\<close> gives a text without \<open>s\<close>,
  when \<open>s\<close> and \<open>t\<close> do not overlap.
\<close>

lemma no_overlap_insert:
  assumes no: "no_overlap s t" and x: "\<not> sublist s x" and y: "\<not> sublist s y"
  shows "\<not> sublist s (x @ t @ y)"
proof
  assume "sublist s (x @ t @ y)"
  then consider (right) "sublist s (t @ y)"
    | (span) s1 s2 where "s = s1 @ s2" "suffix s1 x" "prefix s2 (t @ y)"
    using x by (auto simp: sublist_append [of s x])
  then show False
  proof cases
    case right
    then obtain a b where ab: "s = a @ b" "suffix a t" "prefix b y"
      using no y by (auto simp: sublist_append [of s t] no_overlap_def)
    have "a \<noteq> []"
      using ab y by auto
    moreover have "prefix a s"
      using ab by simp
    ultimately show False
      using no ab(2) by (auto simp: no_overlap_def list_all_iff)
  next
    case span
    have ne: "s2 \<noteq> []"
      using span x by (auto simp: suffix_def)
    have suf: "suffix s2 s"
      using span by (simp add: suffix_def)
    from span(3) consider "prefix s2 t" | us where "s2 = t @ us"
      by (auto simp: prefix_append)
    then show False
    proof cases
      case 1
      with ne suf no show False
        by (auto simp: no_overlap_def list_all_iff)
    next
      case 2
      with span(1) have "sublist t s"
        by (auto simp: sublist_def)
      with no show False
        by (simp add: no_overlap_def)
    qed
  qed
qed

lemma no_overlap_nonempty: "no_overlap s t \<Longrightarrow> s \<noteq> []"
  by (auto simp: no_overlap_def)

lemma sublist_suffix_trans: "sublist s a \<Longrightarrow> suffix a b \<Longrightarrow> sublist s b"
  by (auto simp: sublist_def suffix_def) (metis append.assoc)

text \<open>
  The pass for the secret itself: behind the position reached, no occurrence
  of the secret begins.
\<close>

lemma no_start_no_sublist:
  assumes "\<forall>a b. x = a @ b \<and> b \<noteq> [] \<longrightarrow> \<not> prefix p (b @ s)" and "p \<noteq> []"
  shows "\<not> sublist p x"
proof
  assume "sublist p x"
  then obtain a b where x: "x = a @ (p @ b)"
    by (auto simp: sublist_def)
  have "p @ b \<noteq> []"
    using assms(2) by simp
  with assms(1) x have "\<not> prefix p ((p @ b) @ s)"
    by blast
  then show False
    by simp
qed

lemma no_start_snoc:
  assumes q: "\<forall>a b. x = a @ b \<and> b \<noteq> [] \<longrightarrow> \<not> prefix p (b @ c # cs)"
    and c: "\<not> prefix p (c # cs)"
  shows "\<forall>a b. x @ [c] = a @ b \<and> b \<noteq> [] \<longrightarrow> \<not> prefix p (b @ cs)"
proof (intro allI impI)
  fix a b assume ab: "x @ [c] = a @ b \<and> b \<noteq> []"
  then obtain b' where b: "b = b' @ [c]"
    by (metis append_butlast_last_id last_appendR last_snoc)
  with ab have x: "x = a @ b'"
    by simp
  show "\<not> prefix p (b @ cs)"
  proof (cases "b' = []")
    case True
    with b c show ?thesis by simp
  next
    case False
    with q x have "\<not> prefix p (b' @ c # cs)" by blast
    with b show ?thesis by simp
  qed
qed

lemma replaceAll_own:
  "no_overlap p r \<Longrightarrow> \<forall>a b. x = a @ b \<and> b \<noteq> [] \<longrightarrow> \<not> prefix p (b @ s)
   \<Longrightarrow> \<not> sublist p (x @ replaceAll p r s)"
proof (induction p r s arbitrary: x rule: replaceAll.induct)
  case (1 p r)
  have ne: "p \<noteq> []"
    using "1.prems"(1) by (auto dest: no_overlap_nonempty)
  have "\<not> sublist p x"
    using "1.prems"(2) ne by (rule no_start_no_sublist)
  with ne show ?case by simp
next
  case (2 p r c cs)
  have no: "no_overlap p r" by fact
  have ne: "p \<noteq> []"
    using no by (auto dest: no_overlap_nonempty)
  have nx: "\<not> sublist p x"
    using "2.prems"(2) ne by (rule no_start_no_sublist)
  show ?case
  proof (cases "prefix p (c # cs)")
    case True
    have "\<not> sublist p ([] @ replaceAll p r (drop (length p) (c # cs)))"
      using ne True no by (intro "2.IH"(2)) auto
    then have "\<not> sublist p (replaceAll p r (drop (length p) (c # cs)))"
      by simp
    with no nx have "\<not> sublist p (x @ r @ replaceAll p r (drop (length p) (c # cs)))"
      by (rule no_overlap_insert)
    with ne True show ?thesis by simp
  next
    case False
    have "\<not> sublist p ((x @ [c]) @ replaceAll p r cs)"
      using ne False no no_start_snoc [OF "2.prems"(2) False] by (intro "2.IH"(3))
    with ne False show ?thesis by simp
  qed
qed

text \<open>
  Every later pass, for another secret or for a header, only puts texts
  that the secret does not overlap into a text without the secret.
\<close>

lemma not_sublist_appendD:
  "\<not> sublist s (x @ y) \<Longrightarrow> \<not> sublist s x \<and> \<not> sublist s y"
  by (auto simp: sublist_append)

lemma replaceAll_other:
  "no_overlap s r \<Longrightarrow> \<not> sublist s (x @ m) \<Longrightarrow> \<not> sublist s (x @ replaceAll p r m)"
proof (induction p r m arbitrary: x rule: replaceAll.induct)
  case (1 p r)
  have no: "no_overlap s r" by fact
  have nx: "\<not> sublist s x"
    using "1.prems"(2) by simp
  have "\<not> sublist s []"
    using no by (auto dest: no_overlap_nonempty)
  with no nx have "\<not> sublist s (x @ r @ [])"
    by (rule no_overlap_insert)
  with nx show ?case by simp
next
  case (2 p r c cs)
  have no: "no_overlap s r" by fact
  have nx: "\<not> sublist s x" and ns: "\<not> sublist s (c # cs)"
    using "2.prems"(2) by (auto dest: not_sublist_appendD)
  show ?case
  proof (cases "p = []")
    case True
    have "\<not> sublist s ([c] @ replaceAll p r cs)"
      using True no ns by (intro "2.IH"(1)) auto
    then have "\<not> sublist s (c # replaceAll p r cs)"
      by simp
    with no nx have "\<not> sublist s (x @ r @ c # replaceAll p r cs)"
      by (rule no_overlap_insert)
    with True show ?thesis by simp
  next
    case ne: False
    show ?thesis
    proof (cases "prefix p (c # cs)")
      case True
      have "suffix (drop (length p) (c # cs)) (c # cs)"
        by (rule suffix_drop)
      with ns have "\<not> sublist s (drop (length p) (c # cs))"
        by (auto dest: sublist_suffix_trans)
      then have "\<not> sublist s ([] @ replaceAll p r (drop (length p) (c # cs)))"
        using ne True no by (intro "2.IH"(2)) auto
      then have "\<not> sublist s (replaceAll p r (drop (length p) (c # cs)))"
        by simp
      with no nx have "\<not> sublist s (x @ r @ replaceAll p r (drop (length p) (c # cs)))"
        by (rule no_overlap_insert)
      with ne True show ?thesis by simp
    next
      case False
      have "\<not> sublist s ((x @ [c]) @ replaceAll p r cs)"
        using "2.prems"(2) ne False no by (intro "2.IH"(3)) auto
      with ne False show ?thesis by simp
    qed
  qed
qed


lemma match_header_suffix: "match_header h s = Some rest \<Longrightarrow> suffix rest s"
proof -
  assume "match_header h s = Some rest"
  then have "rest = dropWhile (\<lambda>c. \<not> is_space c) (dropWhile is_space (drop (length h) s))"
    by (auto simp: match_header_def Let_def split: if_splits)
  moreover have "suffix (dropWhile (\<lambda>c. \<not> is_space c) (dropWhile is_space (drop (length h) s))) s"
    by (meson suffix_dropWhile suffix_drop suffix_order.trans)
  ultimately show ?thesis by simp
qed

lemma replace_header_other:
  "no_overlap s repl \<Longrightarrow> \<not> sublist s (x @ m) \<Longrightarrow> \<not> sublist s (x @ replace_header h repl m)"
proof (induction h repl m arbitrary: x rule: replace_header.induct)
  case (1 h repl)
  then show ?case by simp
next
  case (2 h repl c cs)
  have no: "no_overlap s repl" by fact
  have nx: "\<not> sublist s x" and ns: "\<not> sublist s (c # cs)"
    using "2.prems"(2) by (auto dest: not_sublist_appendD)
  show ?case
  proof (cases "match_header h (c # cs)")
    case None
    have "\<not> sublist s ((x @ [c]) @ replace_header h repl cs)"
      using "2.prems"(2) None no by (intro "2.IH"(1)) auto
    with None show ?thesis by simp
  next
    case (Some rest)
    then have "suffix rest (c # cs)"
      by (rule match_header_suffix)
    with ns have "\<not> sublist s rest"
      by (auto dest: sublist_suffix_trans)
    then have "\<not> sublist s ([] @ replace_header h repl rest)"
      using Some no by (intro "2.IH"(2)) auto
    then have "\<not> sublist s (replace_header h repl rest)"
      by simp
    with no nx have "\<not> sublist s (x @ repl @ replace_header h repl rest)"
      by (rule no_overlap_insert)
    with Some show ?thesis by simp
  qed
qed

lemma fold_replaceAll_other:
  "no_overlap s r \<Longrightarrow> \<not> sublist s m \<Longrightarrow>
   \<not> sublist s (fold (\<lambda>pattern sanitized. replaceAll pattern r sanitized) ps m)"
proof (induction ps arbitrary: m)
  case Nil
  then show ?case by simp
next
  case (Cons p ps)
  have "\<not> sublist s ([] @ replaceAll p r m)"
    using Cons.prems by (intro replaceAll_other) auto
  then show ?case
    using Cons.prems(1) by (simp add: Cons.IH)
qed

lemma fold_replaceAll_member:
  assumes no: "no_overlap s r" and mem: "s \<in> set ps"
  shows "\<not> sublist s (fold (\<lambda>pattern sanitized. replaceAll pattern r sanitized) ps m)"
proof -
  from mem obtain a b where ps: "ps = a @ s # b"
    by (auto simp: in_set_conv_decomp)
  have "\<not> sublist s ([] @ replaceAll s r (fold (\<lambda>pattern sanitized. replaceAll pattern r sanitized) a m))"
    using no by (intro replaceAll_own) auto
  then have "\<not> sublist s (replaceAll s r (fold (\<lambda>pattern sanitized. replaceAll pattern r sanitized) a m))"
    by simp
  with no have "\<not> sublist s (fold (\<lambda>pattern sanitized. replaceAll pattern r sanitized) b
      (replaceAll s r (fold (\<lambda>pattern sanitized. replaceAll pattern r sanitized) a m)))"
    by (rule fold_replaceAll_other)
  then show ?thesis
    by (simp add: ps)
qed

text \<open>The registry holds the non-empty strings it was given.\<close>

lemma registry_set:
  "set (fold registerSensitivePattern ps reg) = set reg \<union> {p \<in> set ps. p \<noteq> []}"
  by (induction ps arbitrary: reg) (auto simp: registerSensitivePattern_def)

text \<open>
  C1, as amended. A registered secret that overlaps neither the redaction
  token nor one of the three header replacements does not occur in the
  output of \<open>sanitizeMessage\<close>, whatever the input and the other secrets.
\<close>

theorem sanitizeMessage_removes_secret:
  assumes "s \<in> set (fold registerSensitivePattern ps [])"
    and "no_overlap s ''[REDACTED]''"
    and "no_overlap s ''x-api-key: [REDACTED]''"
    and "no_overlap s ''x-api-secret: [REDACTED]''"
    and "no_overlap s ''authorization: [REDACTED]''"
  shows "\<not> sublist s (sanitizeMessage (fold registerSensitivePattern ps []) m)"
proof -
  let ?reg = "fold registerSensitivePattern ps []"
  let ?m0 = "fold (\<lambda>pattern sanitized. replaceAll pattern ''[REDACTED]'' sanitized) ?reg m"
  let ?m1 = "replace_header ''x-api-key:'' ''x-api-key: [REDACTED]'' ?m0"
  let ?m2 = "replace_header ''x-api-secret:'' ''x-api-secret: [REDACTED]'' ?m1"
  let ?m3 = "replace_header ''authorization:'' ''authorization: [REDACTED]'' ?m2"
  have 0: "\<not> sublist s ([] @ ?m0)"
    using fold_replaceAll_member [OF assms(2) assms(1)] by simp
  have 1: "\<not> sublist s ([] @ ?m1)"
    using assms(3) 0 by (rule replace_header_other)
  have 2: "\<not> sublist s ([] @ ?m2)"
    using assms(4) 1 by (rule replace_header_other)
  have 3: "\<not> sublist s ([] @ ?m3)"
    using assms(5) 2 by (rule replace_header_other)
  then show ?thesis
    by (simp add: sanitizeMessage_def)
qed



lemma no_overlap_K1:
  "no_overlap ''K-1'' ''[REDACTED]''" "no_overlap ''K-1'' ''x-api-key: [REDACTED]''"
  "no_overlap ''K-1'' ''x-api-secret: [REDACTED]''" "no_overlap ''K-1'' ''authorization: [REDACTED]''"
  by (simp_all add: no_overlap_def sublist_code suffix_to_prefix)

theorem sanitizeMessage_removes_secret_witness:
  "''K-1'' \<in> set (fold registerSensitivePattern [''K-1'', [], ''S-1''] [])
   \<and> no_overlap ''K-1'' ''[REDACTED]''
   \<and> no_overlap ''K-1'' ''x-api-key: [REDACTED]''
   \<and> no_overlap ''K-1'' ''x-api-secret: [REDACTED]''
   \<and> no_overlap ''K-1'' ''authorization: [REDACTED]''
   \<and> \<not> sublist ''K-1'' (sanitizeMessage (fold registerSensitivePattern [''K-1'', [], ''S-1''] []) ''K-1K-1 S-1'')"
proof -
  have mem: "''K-1'' \<in> set (fold registerSensitivePattern [''K-1'', [], ''S-1''] [])"
    by (simp add: registerSensitivePattern_def)
  show ?thesis
    using mem no_overlap_K1
      sanitizeMessage_removes_secret [OF mem no_overlap_K1, of "''K-1K-1 S-1''"]
    by blast
qed

text \<open>
  C1 as stated fails: the secret \<^verbatim>\<open>RED\<close> is a part of the token that
  replaces it, so the output for the message \<^verbatim>\<open>RED\<close> contains it.
\<close>

theorem sanitizeMessage_secret_survives:
  "sublist ''RED'' (sanitizeMessage (fold registerSensitivePattern [''RED''] []) ''RED'')"
  by (simp add: sanitizeMessage_def registerSensitivePattern_def match_header_def canonicalize_def sublist_code)

text \<open>
  The text of a BigInt is its decimal numeral: it is made of digits, after
  the sign, and reading it gives the integer back.
\<close>

lemma digit_of_nth: "d < 10 \<Longrightarrow> digit_of (''0123456789'' ! d) = d"
proof -
  assume "d < 10"
  then have "d = 0 \<or> d = 1 \<or> d = 2 \<or> d = 3 \<or> d = 4 \<or> d = 5 \<or> d = 6 \<or> d = 7 \<or> d = 8 \<or> d = 9"
    by arith
  then show ?thesis
    by (elim disjE) (simp_all add: digit_of_def)
qed

lemma read_nat_snoc: "read_nat (s @ [c]) = 10 * read_nat s + digit_of c"
  by (simp add: read_nat_def)

lemma read_show_nat: "read_nat (show_nat n) = n"
proof (induction n rule: show_nat.induct)
  case (1 n)
  show ?case
  proof (cases "n < 10")
    case True
    then have "show_nat n = [''0123456789'' ! n]"
      by (subst show_nat.simps) simp
    with True show ?thesis
      by (simp add: read_nat_def digit_of_nth)
  next
    case False
    then have "show_nat n = show_nat (n div 10) @ [''0123456789'' ! (n mod 10)]"
      by (subst show_nat.simps) simp
    then have "read_nat (show_nat n) = 10 * read_nat (show_nat (n div 10)) + n mod 10"
      by (simp add: read_nat_snoc digit_of_nth)
    with False "1.IH" show ?thesis
      by simp
  qed
qed

lemma show_nat_digits: "show_nat n \<noteq> [] \<and> set (show_nat n) \<subseteq> set ''0123456789''"
proof -
  define D where "D = set ''0123456789''"
  have d: "''0123456789'' ! d \<in> D" if "d < 10" for d
    unfolding D_def using that by (intro nth_mem) simp
  have "show_nat n \<noteq> [] \<and> set (show_nat n) \<subseteq> D"
  proof (induction n rule: show_nat.induct)
    case (1 n)
    show ?case
    proof (cases "n < 10")
      case True
      then have "show_nat n = [''0123456789'' ! n]"
        by (subst show_nat.simps) simp
      with d [OF True] show ?thesis
        by simp
    next
      case False
      then have "show_nat n = show_nat (n div 10) @ [''0123456789'' ! (n mod 10)]"
        by (subst show_nat.simps) simp
      moreover have "''0123456789'' ! (n mod 10) \<in> D"
        by (rule d) simp
      ultimately show ?thesis
        using False "1.IH" by simp
    qed
  qed
  then show ?thesis
    unfolding D_def .
qed

lemma read_show_int: "read_int (show_int i) = i"
proof (cases "i < 0")
  case True
  then show ?thesis
    by (simp add: show_int_def read_int_def read_show_nat)
next
  case False
  obtain c t where ct: "show_nat (nat i) = c # t"
    using show_nat_digits [of "nat i"] by (cases "show_nat (nat i)") auto
  then have "c \<in> set ''0123456789''"
    using show_nat_digits [of "nat i"] by auto
  then have "c \<noteq> CHR ''-''"
    by auto
  with False ct read_show_nat [of "nat i"] show ?thesis
    by (simp add: show_int_def read_int_def)
qed

text \<open>The functions of the language on some values.\<close>

lemma quote_unit_examples:
  "quote_unit CHR 0x08 = [CHR 0x5C, CHR ''b'']"
  "quote_unit CHR 0x09 = [CHR 0x5C, CHR ''t'']"
  "quote_unit CHR 0x0A = [CHR 0x5C, CHR ''n'']"
  "quote_unit CHR 0x0C = [CHR 0x5C, CHR ''f'']"
  "quote_unit CHR 0x0D = [CHR 0x5C, CHR ''r'']"
  "quote_unit CHR 0x22 = [CHR 0x5C, CHR 0x22]"
  "quote_unit CHR 0x5C = [CHR 0x5C, CHR 0x5C]"
  "quote_unit CHR 0x0B = [CHR 0x5C, CHR ''u'', CHR ''0'', CHR ''0'', CHR ''0'', CHR ''b'']"
  "quote_unit CHR 0x1F = [CHR 0x5C, CHR ''u'', CHR ''0'', CHR ''0'', CHR ''1'', CHR ''f'']"
  "quote_unit CHR 0x20 = [CHR 0x20]"
  "quote_unit CHR ''a'' = ''a''"
  "quote_unit CHR 0x7F = [CHR 0x7F]"
  "quote_unit CHR 0xE9 = [CHR 0xE9]"
  by (simp_all add: quote_unit_def hex_digit_def)

lemma JSON_stringify_examples:
  "JSON_stringify (JPrim PNull) = Inr (Some ''null'')"
  "JSON_stringify (JPrim PUndefined) = Inr None"
  "JSON_stringify (JPrim (PStr ''a'')) = Inr (Some [CHR 0x22, CHR ''a'', CHR 0x22])"
  "JSON_stringify (JObject []) = Inr (Some ''{}'')"
  "JSON_stringify (JArray []) = Inr (Some ''[]'')"
  "JSON_stringify (JError (PStr ''m'') []) = Inr (Some ''{}'')"
  "JSON_stringify (JArray [JPrim (PBool True), JPrim (PBool False), JPrim (PNum NumNaN),
      JPrim (PNum NumInfinity), JPrim (PNum (NumFinite ''1e+21'')), JPrim (PSymbol None),
      JFunction ''f'' (Throws TypeError), JArray [JPrim PUndefined]])
     = Inr (Some ''[true,false,null,null,1e+21,null,null,[null]]'')"
  "JSON_stringify (JObject [(''u'', JPrim PUndefined), (''n'', JPrim PNull),
      (''toJSON'', JPrim (PNum (NumFinite ''1'')))])
     = Inr (Some (''{'' @ [CHR 0x22] @ ''n'' @ [CHR 0x22] @ '':null,''
                  @ [CHR 0x22] @ ''toJSON'' @ [CHR 0x22] @ '':1}''))"
  "JSON_stringify (JObject [(''a'', JObject [(''toJSON'', JFunction ''f'' (Throws (Error ''no'')))])])
     = Inl (Error ''no'')"
  "JSON_stringify (JObject [(''toJSON'', JFunction ''f'' (Returns (JFunction ''g'' (Throws TypeError))))])
     = Inr None"
  "JSON_stringify (JArray [JPrim (PBigInt 1)]) = Inl TypeError"
  "JSON_stringify (JArray [JObject [(''self'', JCycle)]]) = Inl TypeError"
  by (simp_all add: JSON_stringify_def SerializeJSONProperty_def after_toJSON_def toJSON_call_def
      QuoteJSONString_def quote_unit_def)

lemma typeof_examples:
  "typeof (JPrim PNull) = ''object''" "typeof (JArray []) = ''object''"
  "typeof (JError (PStr ''m'') []) = ''object''" "typeof (JObject []) = ''object''"
  "typeof (JFunction ''f'' (Throws TypeError)) = ''function''"
  "typeof (JPrim (PBigInt 1)) = ''bigint''" "typeof (JPrim (PSymbol None)) = ''symbol''"
  "typeof (JPrim PUndefined) = ''undefined''" "typeof (JPrim (PStr [])) = ''string''"
  "typeof (JPrim (PNum NumNaN)) = ''number''" "typeof (JPrim (PBool True)) = ''boolean''"
  by simp_all

text \<open>
  \<^verbatim>\<open>JSON.stringify\<close> throws exactly on the values that are not
  serializable, and returns \<^verbatim>\<open>undefined\<close> exactly on the omitted ones.
\<close>

lemma serialize_throws:
  "(serializable v \<longrightarrow> (\<exists>r. SerializeJSONValue v = Inr r))
     \<and> (\<not> serializable v \<longrightarrow> (\<exists>e. SerializeJSONValue v = Inl e))"
  "(serializable_props props \<longrightarrow> (\<exists>ms. SerializeJSONObject props = Inr ms))
     \<and> (\<not> serializable_props props \<longrightarrow> (\<exists>e. SerializeJSONObject props = Inl e))"
  "(serializable_elems elems \<longrightarrow> (\<exists>ms. SerializeJSONArray elems = Inr ms))
     \<and> (\<not> serializable_elems elems \<longrightarrow> (\<exists>e. SerializeJSONArray elems = Inl e))"
proof (induction v and props and elems
    rule: SerializeJSONValue_SerializeJSONObject_SerializeJSONArray.induct)
  case (10 props)
  then show ?case by (auto split: sum.splits)
next
  case (11 m props)
  then show ?case by (auto split: sum.splits)
next
  case (12 elems)
  then show ?case by (auto split: sum.splits)
next
  case (14 k v rest)
  show ?case
  proof (cases "after_toJSON v")
    case (Inl e)
    then show ?thesis by simp
  next
    case v': (Inr v')
    have p1: "(serializable v' \<longrightarrow> (\<exists>r. SerializeJSONValue v' = Inr r))
        \<and> (\<not> serializable v' \<longrightarrow> (\<exists>e. SerializeJSONValue v' = Inl e))"
      using v' by (rule "14.IH"(1))
    show ?thesis
    proof (cases "SerializeJSONValue v'")
      case (Inl e)
      with p1 have "\<not> serializable v'" by auto
      with v' Inl show ?thesis by simp
    next
      case r: (Inr r)
      with p1 have ok: "serializable v'" by auto
      have p2: "(serializable_props rest \<longrightarrow> (\<exists>ms. SerializeJSONObject rest = Inr ms))
          \<and> (\<not> serializable_props rest \<longrightarrow> (\<exists>e. SerializeJSONObject rest = Inl e))"
      proof (cases r)
        case None
        with v' r show ?thesis by (intro "14.IH"(2))
      next
        case (Some x)
        with v' r show ?thesis by (intro "14.IH"(3))
      qed
      with v' r ok show ?thesis
        by (cases r) (auto split: sum.splits)
    qed
  qed
next
  case (16 v rest)
  show ?case
  proof (cases "after_toJSON v")
    case (Inl e)
    then show ?thesis by simp
  next
    case v': (Inr v')
    have p1: "(serializable v' \<longrightarrow> (\<exists>r. SerializeJSONValue v' = Inr r))
        \<and> (\<not> serializable v' \<longrightarrow> (\<exists>e. SerializeJSONValue v' = Inl e))"
      using v' by (rule "16.IH"(1))
    show ?thesis
    proof (cases "SerializeJSONValue v'")
      case (Inl e)
      with p1 have "\<not> serializable v'" by auto
      with v' Inl show ?thesis by simp
    next
      case r: (Inr r)
      with p1 have ok: "serializable v'" by auto
      have p2: "(serializable_elems rest \<longrightarrow> (\<exists>ms. SerializeJSONArray rest = Inr ms))
          \<and> (\<not> serializable_elems rest \<longrightarrow> (\<exists>e. SerializeJSONArray rest = Inl e))"
        using v' r by (rule "16.IH"(2))
      with v' r ok show ?thesis
        by (auto split: sum.splits)
    qed
  qed
qed simp_all

lemma serialize_omitted:
  "SerializeJSONValue v = Inr r \<Longrightarrow> (r = None \<longleftrightarrow> omitted v)"
  by (cases v rule: omitted.cases) (auto split: sum.splits prim.splits)

lemma stringify_text:
  "(stringifies v \<longrightarrow> (\<exists>str. JSON_stringify v = Inr (Some str)))
   \<and> (\<not> stringifies v \<longrightarrow> JSON_stringify v = Inr None \<or> (\<exists>e. JSON_stringify v = Inl e))"
proof (cases "after_toJSON v")
  case (Inl e)
  then show ?thesis
    by (simp add: stringifies_def JSON_stringify_def SerializeJSONProperty_def)
next
  case (Inr v')
  show ?thesis
  proof (cases "SerializeJSONValue v'")
    case (Inl e)
    with Inr serialize_throws(1) [of v'] show ?thesis
      by (auto simp: stringifies_def JSON_stringify_def SerializeJSONProperty_def)
  next
    case r: (Inr r)
    with Inr serialize_throws(1) [of v'] serialize_omitted [of v' r] show ?thesis
      by (auto simp: stringifies_def JSON_stringify_def SerializeJSONProperty_def)
  qed
qed

lemma handleKomodoError_object:
  assumes "rawMessage error =
     (case JSON_stringify error of
        Inl e \<Rightarrow> Inl e | Inr None \<Rightarrow> Inr PUndefined | Inr (Some str) \<Rightarrow> Inr (PStr str))"
  shows "(stringifies error \<longrightarrow> (\<exists>r. handleKomodoError patterns context error = Inr r))
     \<and> (\<not> stringifies error \<longrightarrow> (\<exists>e. handleKomodoError patterns context error = Inl e))"
  using stringify_text [of error] assms
  by (auto simp: handleKomodoError_def split: sum.splits option.splits)


text \<open>
  C4, as amended. Over the values of this development (primitive values,
  functions, instances of \<^verbatim>\<open>Error\<close> with a primitive message, plain objects
  and arrays of data properties), \<open>handleKomodoError\<close> returns a response
  exactly when the raw message is a string, and throws otherwise. It returns
  for every primitive value (a string, a number, a boolean, a BigInt, a
  symbol, \<^verbatim>\<open>undefined\<close>, \<^verbatim>\<open>null\<close>), for every function, for every instance
  of \<^verbatim>\<open>Error\<close> whose message is a string, and for every other object or
  array for which \<^verbatim>\<open>JSON.stringify\<close> returns a string. It throws for an
  instance of \<^verbatim>\<open>Error\<close> whose message is not a string, and for an object
  or array in which \<^verbatim>\<open>JSON.stringify\<close> meets a reference to an enclosing
  object, a BigInt or a \<^verbatim>\<open>toJSON\<close> that throws, or whose own \<^verbatim>\<open>toJSON\<close>
  returns \<^verbatim>\<open>undefined\<close>, a symbol or a function.
\<close>

theorem handleKomodoError_returns:
  "(normalizable error \<longrightarrow> (\<exists>r. handleKomodoError patterns context error = Inr r))
   \<and> (\<not> normalizable error \<longrightarrow> (\<exists>e. handleKomodoError patterns context error = Inl e))
   \<and> (\<exists>r. handleKomodoError patterns context (JPrim p) = Inr r)
   \<and> (\<exists>r. handleKomodoError patterns context (JFunction src c) = Inr r)
   \<and> (\<exists>r. handleKomodoError patterns context (JError (PStr m) props) = Inr r)
   \<and> ((\<forall>s. mv \<noteq> PStr s) \<longrightarrow> handleKomodoError patterns context (JError mv props) = Inl TypeError)
   \<and> ((\<exists>r. handleKomodoError patterns context error = Inr r)
        \<longleftrightarrow> (\<exists>raw. rawMessage error = Inr (PStr raw)))"
proof -
  have "(\<exists>r. handleKomodoError patterns context error = Inr r)
        \<longleftrightarrow> (\<exists>raw. rawMessage error = Inr (PStr raw))"
    by (auto simp: handleKomodoError_def split: sum.splits prim.splits)
  moreover have "(normalizable error \<longrightarrow> (\<exists>r. handleKomodoError patterns context error = Inr r))
   \<and> (\<not> normalizable error \<longrightarrow> (\<exists>e. handleKomodoError patterns context error = Inl e))"
  proof (cases error)
    case (JPrim p)
    then show ?thesis by (simp add: handleKomodoError_def)
  next
    case (JFunction src c)
    then show ?thesis by (simp add: handleKomodoError_def)
  next
    case (JError m props)
    then show ?thesis by (cases m) (simp_all add: handleKomodoError_def)
  next
    case (JObject props)
    then show ?thesis
      using handleKomodoError_object [of error patterns "context"] by simp
  next
    case (JArray elems)
    then show ?thesis
      using handleKomodoError_object [of error patterns "context"] by simp
  next
    case JCycle
    then show ?thesis
      using handleKomodoError_object [of error patterns "context"] by simp
  qed
  moreover have "(\<forall>s. mv \<noteq> PStr s) \<longrightarrow> handleKomodoError patterns context (JError mv props) = Inl TypeError"
    by (cases mv) (simp_all add: handleKomodoError_def)
  ultimately show ?thesis
    by (simp add: handleKomodoError_def)
qed

theorem handleKomodoError_returns_witness:
  "normalizable (JObject [(''status'', JPrim (PNum (NumFinite ''404'')))])
   \<and> (\<exists>r. handleKomodoError [''K-1''] ''listing actions''
              (JObject [(''status'', JPrim (PNum (NumFinite ''404'')))]) = Inr r)
   \<and> \<not> normalizable (JObject [(''self'', JCycle)])
   \<and> \<not> normalizable (JObject [(''n'', JPrim (PBigInt 10))])
   \<and> \<not> normalizable (JObject [(''toJSON'', JFunction ''() => undefined'' (Returns (JPrim PUndefined)))])
   \<and> \<not> normalizable (JError PUndefined [])
   \<and> (\<exists>e. handleKomodoError [''K-1''] ''listing actions'' (JObject [(''n'', JPrim (PBigInt 10))]) = Inl e)
   \<and> handleKomodoError [''K-1''] ''listing actions'' (JError PUndefined []) = Inl TypeError"
  using handleKomodoError_returns [of "JObject [(''status'', JPrim (PNum (NumFinite ''404'')))]"
      "[''K-1'']" "''listing actions''"]
    handleKomodoError_returns [of "JObject [(''n'', JPrim (PBigInt 10))]"
      "[''K-1'']" "''listing actions''" _ _ _ _ "[]" PUndefined]
  by (simp add: stringifies_def after_toJSON_def toJSON_call_def)

text \<open>
  C4 as stated fails: on the object \<^verbatim>\<open>o\<close> with \<^verbatim>\<open>o.self = o\<close> the
  function throws.
\<close>

theorem handleKomodoError_circular_throws:
  "handleKomodoError [] ''listing actions'' (JObject [(''self'', JCycle)]) = Inl TypeError"
  by (simp add: handleKomodoError_def JSON_stringify_def SerializeJSONProperty_def
      after_toJSON_def toJSON_call_def)

text \<open>
  C5, as amended. The message of an instance of \<^verbatim>\<open>Error\<close> is taken, and
  a message that is not a string makes the function throw a \<^verbatim>\<open>TypeError\<close>.
  Any other object, with or without a property \<^verbatim>\<open>message\<close>, is given to
  \<^verbatim>\<open>JSON.stringify\<close>: its exception is passed on, its result
  \<^verbatim>\<open>undefined\<close> makes the function throw a \<^verbatim>\<open>TypeError\<close>. A primitive
  value is coerced with \<^verbatim>\<open>String()\<close>: a string is taken as it is,
  \<^verbatim>\<open>undefined\<close>, \<^verbatim>\<open>null\<close>, \<^verbatim>\<open>true\<close>, \<^verbatim>\<open>false\<close>, \<^verbatim>\<open>NaN\<close>,
  \<^verbatim>\<open>Infinity\<close> and \<^verbatim>\<open>-Infinity\<close> give their names, a finite number its
  text, a BigInt its decimal numeral, a symbol \<^verbatim>\<open>Symbol(description)\<close>; a
  function gives its source text. Whenever a response is returned, it is the
  error response whose text is \<^verbatim>\<open>Error\<close>, the context, a colon and the
  sanitized raw message.
\<close>

theorem handleKomodoError_shape:
  "handleKomodoError patterns context (JError (PStr m) props)
     = Inr (error_response context (sanitizeMessage patterns m))
   \<and> ((\<forall>s. mv \<noteq> PStr s) \<longrightarrow> handleKomodoError patterns context (JError mv props) = Inl TypeError)
   \<and> (\<not> instanceof_Error error \<and> typeof error = ''object'' \<and> error \<noteq> JPrim PNull \<longrightarrow>
        handleKomodoError patterns context error =
          (case JSON_stringify error of
             Inl e \<Rightarrow> Inl e
           | Inr None \<Rightarrow> Inl TypeError
           | Inr (Some str) \<Rightarrow> Inr (error_response context (sanitizeMessage patterns str))))
   \<and> handleKomodoError patterns context (JPrim p)
       = Inr (error_response context (sanitizeMessage patterns
           (case p of
              PUndefined \<Rightarrow> ''undefined''
            | PNull \<Rightarrow> ''null''
            | PBool b \<Rightarrow> (if b then ''true'' else ''false'')
            | PNum n \<Rightarrow>
                (case n of
                   NumNaN \<Rightarrow> ''NaN''
                 | NumInfinity \<Rightarrow> ''Infinity''
                 | NumNegInfinity \<Rightarrow> ''-Infinity''
                 | NumFinite t \<Rightarrow> t)
            | PBigInt i \<Rightarrow> show_int i
            | PStr s \<Rightarrow> s
            | PSymbol d \<Rightarrow> ''Symbol('' @ (case d of None \<Rightarrow> [] | Some t \<Rightarrow> t) @ '')'')))
   \<and> handleKomodoError patterns context (JFunction src c)
       = Inr (error_response context (sanitizeMessage patterns src))
   \<and> error_response context safeMessage
       = \<lparr> content = [\<lparr> block_type = ''text'', block_text = ''Error '' @ context @ '': '' @ safeMessage \<rparr>],
           isError = True \<rparr>
   \<and> (handleKomodoError patterns context error = Inr resp \<longrightarrow>
        (\<exists>raw. rawMessage error = Inr (PStr raw)
           \<and> resp = error_response context (sanitizeMessage patterns raw)))"
proof (intro conjI impI)
  show "handleKomodoError patterns context (JError (PStr m) props)
     = Inr (error_response context (sanitizeMessage patterns m))"
    by (simp add: handleKomodoError_def error_response_def)
  show "handleKomodoError patterns context (JError mv props) = Inl TypeError" if "\<forall>s. mv \<noteq> PStr s"
    using that by (cases mv) (simp_all add: handleKomodoError_def)
  show "handleKomodoError patterns context error =
          (case JSON_stringify error of
             Inl e \<Rightarrow> Inl e
           | Inr None \<Rightarrow> Inl TypeError
           | Inr (Some str) \<Rightarrow> Inr (error_response context (sanitizeMessage patterns str)))"
    if "\<not> instanceof_Error error \<and> typeof error = ''object'' \<and> error \<noteq> JPrim PNull"
  proof (cases error)
    case (JPrim p)
    with that show ?thesis by (cases p) simp_all
  next
    case (JFunction src c)
    with that show ?thesis by simp
  next
    case (JError m props)
    with that show ?thesis by simp
  next
    case (JObject props)
    then show ?thesis
      by (simp add: handleKomodoError_def error_response_def split: sum.splits option.splits)
  next
    case (JArray elems)
    then show ?thesis
      by (simp add: handleKomodoError_def error_response_def split: sum.splits option.splits)
  next
    case JCycle
    then show ?thesis
      by (simp add: handleKomodoError_def error_response_def split: sum.splits option.splits)
  qed
  show "handleKomodoError patterns context (JPrim p)
       = Inr (error_response context (sanitizeMessage patterns
           (case p of
              PUndefined \<Rightarrow> ''undefined''
            | PNull \<Rightarrow> ''null''
            | PBool b \<Rightarrow> (if b then ''true'' else ''false'')
            | PNum n \<Rightarrow>
                (case n of
                   NumNaN \<Rightarrow> ''NaN''
                 | NumInfinity \<Rightarrow> ''Infinity''
                 | NumNegInfinity \<Rightarrow> ''-Infinity''
                 | NumFinite t \<Rightarrow> t)
            | PBigInt i \<Rightarrow> show_int i
            | PStr s \<Rightarrow> s
            | PSymbol d \<Rightarrow> ''Symbol('' @ (case d of None \<Rightarrow> [] | Some t \<Rightarrow> t) @ '')'')))"
  proof (cases p)
    case (PNum n)
    then show ?thesis
      by (cases n) (simp_all add: handleKomodoError_def error_response_def)
  qed (simp_all add: handleKomodoError_def error_response_def)
  show "handleKomodoError patterns context (JFunction src c)
       = Inr (error_response context (sanitizeMessage patterns src))"
    by (simp add: handleKomodoError_def error_response_def)
  show "error_response context safeMessage
       = \<lparr> content = [\<lparr> block_type = ''text'', block_text = ''Error '' @ context @ '': '' @ safeMessage \<rparr>],
           isError = True \<rparr>"
    by (simp add: error_response_def)
  show "\<exists>raw. rawMessage error = Inr (PStr raw)
           \<and> resp = error_response context (sanitizeMessage patterns raw)"
    if "handleKomodoError patterns context error = Inr resp"
    using that
    by (auto simp: handleKomodoError_def error_response_def split: sum.splits prim.splits)
qed


theorem handleKomodoError_shape_witness:
  "handleKomodoError [''K-1''] ''listing'' (JError (PStr ''bad K-1'') [])
     = Inr \<lparr> content = [\<lparr> block_type = ''text'', block_text = ''Error listing: bad [REDACTED]'' \<rparr>],
             isError = True \<rparr>
   \<and> handleKomodoError [''K-1''] ''listing'' (JPrim (PStr ''K-1 down''))
     = Inr \<lparr> content = [\<lparr> block_type = ''text'', block_text = ''Error listing: [REDACTED] down'' \<rparr>],
             isError = True \<rparr>
   \<and> handleKomodoError [] ''listing'' (JPrim (PBigInt (- 404)))
     = Inr \<lparr> content = [\<lparr> block_type = ''text'', block_text = ''Error listing: -404'' \<rparr>],
             isError = True \<rparr>
   \<and> handleKomodoError [] ''listing'' (JPrim PUndefined)
     = Inr \<lparr> content = [\<lparr> block_type = ''text'', block_text = ''Error listing: undefined'' \<rparr>],
             isError = True \<rparr>
   \<and> \<not> instanceof_Error
         (JObject [(''code'', JPrim (PNum (NumFinite ''404''))),
                   (''tags'', JArray [JPrim PUndefined, JPrim (PStr [CHR 0x22])]),
                   (''retry'', JFunction ''() => {}'' (Returns (JPrim PUndefined))),
                   (''at'', JObject [(''toJSON'', JFunction ''f'' (Returns (JPrim (PStr ''now''))))])])
   \<and> typeof
         (JObject [(''code'', JPrim (PNum (NumFinite ''404''))),
                   (''tags'', JArray [JPrim PUndefined, JPrim (PStr [CHR 0x22])]),
                   (''retry'', JFunction ''() => {}'' (Returns (JPrim PUndefined))),
                   (''at'', JObject [(''toJSON'', JFunction ''f'' (Returns (JPrim (PStr ''now''))))])])
       = ''object''
   \<and> handleKomodoError [] ''listing''
         (JObject [(''code'', JPrim (PNum (NumFinite ''404''))),
                   (''tags'', JArray [JPrim PUndefined, JPrim (PStr [CHR 0x22])]),
                   (''retry'', JFunction ''() => {}'' (Returns (JPrim PUndefined))),
                   (''at'', JObject [(''toJSON'', JFunction ''f'' (Returns (JPrim (PStr ''now''))))])])
     = Inr \<lparr> content = [\<lparr> block_type = ''text'',
                           block_text = ''Error listing: {'' @ [CHR 0x22] @ ''code'' @ [CHR 0x22] @ '':404,''
                             @ [CHR 0x22] @ ''tags'' @ [CHR 0x22] @ '':[null,'' @ [CHR 0x22, CHR 0x5C, CHR 0x22, CHR 0x22]
                             @ ''],'' @ [CHR 0x22] @ ''at'' @ [CHR 0x22] @ '':'' @ [CHR 0x22] @ ''now'' @ [CHR 0x22] @ ''}'' \<rparr>],
             isError = True \<rparr>"
proof -
  let ?obj = "JObject [(''code'', JPrim (PNum (NumFinite ''404''))),
                   (''tags'', JArray [JPrim PUndefined, JPrim (PStr [CHR 0x22])]),
                   (''retry'', JFunction ''() => {}'' (Returns (JPrim PUndefined))),
                   (''at'', JObject [(''toJSON'', JFunction ''f'' (Returns (JPrim (PStr ''now''))))])]"
  let ?json = "''{'' @ [CHR 0x22] @ ''code'' @ [CHR 0x22] @ '':404,''
                 @ [CHR 0x22] @ ''tags'' @ [CHR 0x22] @ '':[null,'' @ [CHR 0x22, CHR 0x5C, CHR 0x22, CHR 0x22]
                 @ ''],'' @ [CHR 0x22] @ ''at'' @ [CHR 0x22] @ '':'' @ [CHR 0x22] @ ''now'' @ [CHR 0x22] @ ''}''"
  have n: "show_int (- 404) = ''-404''"
    by (simp add: show_int_def show_nat.simps [of 404] show_nat.simps [of 40] show_nat.simps [of 4])
  have s1: "sanitizeMessage [''K-1''] ''bad K-1'' = ''bad [REDACTED]''"
    by (simp add: sanitizeMessage_def match_header_def canonicalize_def)
  have s2: "sanitizeMessage [''K-1''] ''K-1 down'' = ''[REDACTED] down''"
    by (simp add: sanitizeMessage_def match_header_def canonicalize_def)
  have s3: "sanitizeMessage [] ''-404'' = ''-404''"
    by (simp add: sanitizeMessage_def match_header_def canonicalize_def)
  have s4: "sanitizeMessage [] ''undefined'' = ''undefined''"
    by (simp add: sanitizeMessage_def match_header_def canonicalize_def)
  have j: "JSON_stringify ?obj = Inr (Some ?json)"
    by (simp add: JSON_stringify_def SerializeJSONProperty_def after_toJSON_def toJSON_call_def
        QuoteJSONString_def quote_unit_def)
  have s5: "sanitizeMessage [] ?json = ?json"
    by (simp add: sanitizeMessage_def match_header_def canonicalize_def)
  have o: "\<not> instanceof_Error ?obj \<and> typeof ?obj = ''object'' \<and> ?obj \<noteq> JPrim PNull"
    by simp
  note t1 = handleKomodoError_shape [of "[''K-1'']" "''listing''" "''bad K-1''" "[]" PUndefined
      "JPrim PUndefined" "PStr ''K-1 down''"]
  note t2 = handleKomodoError_shape [of "[]" "''listing''" "[]" "[]" PUndefined ?obj "PBigInt (- 404)"]
  note t3 = handleKomodoError_shape [of "[]" "''listing''" "[]" "[]" PUndefined "JPrim PUndefined" PUndefined]
  have a: "handleKomodoError [''K-1''] ''listing'' (JError (PStr ''bad K-1'') [])
      = Inr (error_response ''listing'' ''bad [REDACTED]'')"
    using t1 [THEN conjunct1] by (simp only: s1)
  have b: "handleKomodoError [''K-1''] ''listing'' (JPrim (PStr ''K-1 down''))
      = Inr (error_response ''listing'' ''[REDACTED] down'')"
    using t1 [THEN conjunct2, THEN conjunct2, THEN conjunct2, THEN conjunct1]
    by (simp only: prim.case s2)
  have c: "handleKomodoError [] ''listing'' (JPrim (PBigInt (- 404)))
      = Inr (error_response ''listing'' ''-404'')"
    using t2 [THEN conjunct2, THEN conjunct2, THEN conjunct2, THEN conjunct1]
    by (simp only: prim.case n s3)
  have d: "handleKomodoError [] ''listing'' (JPrim PUndefined)
      = Inr (error_response ''listing'' ''undefined'')"
    using t3 [THEN conjunct2, THEN conjunct2, THEN conjunct2, THEN conjunct1]
    by (simp only: prim.case s4)
  have e: "handleKomodoError [] ''listing'' ?obj = Inr (error_response ''listing'' ?json)"
    using t2 [THEN conjunct2, THEN conjunct2, THEN conjunct1, rule_format, OF o]
    by (simp only: j sum.case option.case s5)
  show ?thesis
    using a b c d e o by (simp add: error_response_def)
qed

text \<open>
  C5 as stated fails: for the plain object with the property \<^verbatim>\<open>message\<close>
  of value \<^verbatim>\<open>boom\<close> the text is built from the object's JSON text, not
  from the property.
\<close>

theorem handleKomodoError_message_property:
  "handleKomodoError [] ''x'' (JObject [(''message'', JPrim (PStr ''boom''))])
     = Inr \<lparr> content = [\<lparr> block_type = ''text'',
                           block_text = ''Error x: {'' @ [CHR 0x22] @ ''message'' @ [CHR 0x22] @ '':''
                                        @ [CHR 0x22] @ ''boom'' @ [CHR 0x22] @ ''}'' \<rparr>],
             isError = True \<rparr>
   \<and> handleKomodoError [] ''x'' (JObject [(''message'', JPrim (PStr ''boom''))])
     \<noteq> Inr \<lparr> content = [\<lparr> block_type = ''text'', block_text = ''Error x: boom'' \<rparr>], isError = True \<rparr>"
  by (simp add: handleKomodoError_def JSON_stringify_def SerializeJSONProperty_def after_toJSON_def
      toJSON_call_def QuoteJSONString_def quote_unit_def
      sanitizeMessage_def match_header_def canonicalize_def)


section \<open>The sanitizer: a second pass\<close>

text \<open>
  White space is its own canonical form, and matching a literal is a prefix
  test on canonical forms.
\<close>

lemma canonicalize_space:
  assumes "is_space c"
  shows "canonicalize c = c"
proof -
  from assms have "c = CHR 0x09 \<or> c = CHR 0x0A \<or> c = CHR 0x0B \<or> c = CHR 0x0C \<or> c = CHR 0x0D
      \<or> c = CHR 0x20 \<or> c = CHR 0xA0"
    by (simp add: is_space_def)
  then show ?thesis
    by (elim disjE) (simp_all add: canonicalize_def)
qed

lemma ci_prefix_canon: "ci_prefix h s \<longleftrightarrow> prefix (canon h) (canon s)"
  by (induction h s rule: ci_prefix.induct) (auto simp: canon_def)

lemma canon_append: "canon (a @ b) = canon a @ canon b"
  by (simp add: canon_def)

lemma length_canon: "length (canon s) = length s"
  by (simp add: canon_def)

lemma canon_drop: "canon (drop n s) = drop n (canon s)"
  by (simp add: canon_def drop_map)

lemma sp_Nil: "sp []"
  by (simp add: sp_def)

lemma sp_Cons: "sp (c # cs) \<longleftrightarrow> is_space c"
  by (simp add: sp_def)

lemma sp_all_space: "list_all is_space w \<Longrightarrow> sp w"
  by (cases w) (simp_all add: sp_def)

lemma sp_dropWhile: "sp (dropWhile (\<lambda>c. \<not> is_space c) r)"
proof (cases "dropWhile (\<lambda>c. \<not> is_space c) r")
  case Nil
  then show ?thesis by (simp only: sp_def list.simps)
next
  case (Cons c cs)
  then have "dropWhile (\<lambda>c. \<not> is_space c) r \<noteq> []" by simp
  then have "\<not> \<not> is_space (hd (dropWhile (\<lambda>c. \<not> is_space c) r))"
    by (rule hd_dropWhile)
  with Cons show ?thesis by (simp add: sp_def)
qed

lemma match_header_sp: "match_header h s = Some rest \<Longrightarrow> sp rest"
  by (auto simp: match_header_def Let_def sp_dropWhile split: if_splits)

lemma match_header_ci: "match_header h s = Some rest \<Longrightarrow> ci_prefix h s"
  by (auto simp: match_header_def split: if_splits)

text \<open>A literal without white space cannot reach into what begins with white space.\<close>

lemma ci_prefix_stops:
  assumes ns: "list_all (\<lambda>p. \<not> is_space (canonicalize p)) h"
    and w: "sp w" and ci: "ci_prefix h (v @ w)"
  shows "prefix (canon h) (canon v)"
proof -
  from ci have "prefix (canon h) (canon v @ canon w)"
    by (simp add: ci_prefix_canon canon_append)
  then consider "prefix (canon h) (canon v)"
    | us where "canon h = canon v @ us" "prefix us (canon w)"
    unfolding prefix_append by blast
  then consider "prefix (canon h) (canon v)"
    | us where "canon h = canon v @ us" "us \<noteq> []" "prefix us (canon w)"
  proof cases
    case 1
    then show ?thesis by (rule that(1))
  next
    case (2 us)
    show ?thesis
    proof (cases "us = []")
      case True
      with 2 have "prefix (canon h) (canon v)" by simp
      then show ?thesis by (rule that(1))
    next
      case False
      with 2 show ?thesis by (intro that(2))
    qed
  qed
  then show ?thesis
  proof cases
    case 1
    then show ?thesis .
  next
    case 2
    then obtain c cs where w': "w = c # cs" and us: "hd us = canonicalize c"
      by (cases w; cases us) (auto simp: canon_def)
    from w w' have "is_space c" by (simp add: sp_Cons)
    then have sc: "is_space (canonicalize c)"
      by (simp add: canonicalize_space)
    from 2 have "hd us \<in> set (canon h)"
      by (cases us) auto
    then obtain p where "p \<in> set h" "hd us = canonicalize p"
      by (auto simp: canon_def)
    with ns have "\<not> is_space (hd us)"
      by (auto simp: list_all_iff)
    with us sc show ?thesis by simp
  qed
qed

text \<open>
  No match begins at white space, so the replacement keeps a white space at
  the start of a text and leaves a text of white space alone.
\<close>

lemma match_header_space: 
  assumes "h \<noteq> []" "list_all (\<lambda>p. \<not> is_space (canonicalize p)) h" "sp w"
  shows "match_header h w = None"
proof (rule ccontr)
  assume "match_header h w \<noteq> None"
  then have "ci_prefix h ([] @ w)"
    by (auto dest: match_header_ci)
  with assms have "prefix (canon h) (canon [])"
    by (intro ci_prefix_stops)
  with assms(1) show False
    by (simp add: canon_def)
qed

lemma replace_header_sp:
  assumes "h \<noteq> []" "list_all (\<lambda>p. \<not> is_space (canonicalize p)) h" "sp w"
  shows "sp (replace_header h t w)"
proof (cases w)
  case Nil
  then show ?thesis by (simp add: sp_def)
next
  case (Cons c cs)
  with assms have "match_header h (c # cs) = None"
    by (intro match_header_space) auto
  with Cons assms(3) show ?thesis
    by (simp add: sp_def)
qed

lemma replace_header_all_space:
  assumes "h \<noteq> []" "list_all (\<lambda>p. \<not> is_space (canonicalize p)) h"
  shows "list_all is_space w \<Longrightarrow> replace_header h t w = w"
proof (induction w)
  case Nil
  show ?case by simp
next
  case (Cons c cs)
  then have "sp (c # cs)" by (simp add: sp_Cons)
  with assms have "match_header h (c # cs) = None"
    by (intro match_header_space)
  with Cons show ?case by simp
qed

text \<open>
  The replacement passes over a stretch in which no match begins.
\<close>

lemma replace_header_skip:
  "(\<And>k. k < length u \<Longrightarrow> match_header h (drop k u @ w) = None)
   \<Longrightarrow> replace_header h t (u @ w) = u @ replace_header h t w"
proof (induction u)
  case Nil
  show ?case by simp
next
  case (Cons c cs)
  have "match_header h (drop 0 (c # cs) @ w) = None"
    by (rule Cons.prems) simp
  then have 0: "match_header h (c # cs @ w) = None" by simp
  have "match_header h (drop k cs @ w) = None" if "k < length cs" for k
    using Cons.prems [of "Suc k"] that by simp
  then have "replace_header h t (cs @ w) = cs @ replace_header h t w"
    by (rule Cons.IH)
  with 0 show ?case by simp
qed

lemma token_no_space: "x \<in> set ''[REDACTED]'' \<Longrightarrow> \<not> is_space x"
  by (auto simp: is_space_def)

lemma is_space_blank: "is_space CHR '' ''"
  by (simp add: is_space_def)

lemma dropWhile_sp: "sp w \<Longrightarrow> dropWhile (\<lambda>c. \<not> is_space c) w = w"
  by (cases w) (simp_all add: sp_def)

text \<open>
  The replacement text, followed by white space or by nothing, is matched
  as a whole.
\<close>

lemma match_header_replacement:
  assumes "sp w"
  shows "match_header h (header_repl h @ w) = Some w"
proof -
  have ci: "ci_prefix h (header_repl h @ w)"
    by (simp add: ci_prefix_canon header_repl_def canon_append)
  have "dropWhile (\<lambda>c. \<not> is_space c) (''[REDACTED]'' @ w) = dropWhile (\<lambda>c. \<not> is_space c) w"
    by (rule dropWhile_append2) (simp add: token_no_space)
  then have 1: "dropWhile (\<lambda>c. \<not> is_space c) (''[REDACTED]'' @ w) = w"
    using assms by (simp add: dropWhile_sp)
  have "\<not> is_space CHR ''[''"
    by (simp add: token_no_space)
  then have 2: "dropWhile is_space (drop (length h) (header_repl h @ w)) = ''[REDACTED]'' @ w"
    by (simp add: header_repl_def is_space_blank)
  show ?thesis
    unfolding match_header_def Let_def 2 1 using ci by simp
qed

text \<open>A settled text is a fixed point of the replacement.\<close>

lemma settled_suffix: "settled h z \<Longrightarrow> suffix y z \<Longrightarrow> settled h y"
  unfolding settled_def by (meson suffix_order.trans)

lemma settled_fixed: "settled h z \<Longrightarrow> replace_header h (header_repl h) z = z"
proof (induction h "header_repl h" z rule: replace_header.induct)
  case (1 h)
  show ?case by simp
next
  case (2 h c cs)
  show ?case
  proof (cases "match_header h (c # cs)")
    case None
    have "settled h cs"
      using "2.prems" by (rule settled_suffix) (simp add: suffix_Cons)
    with None "2.hyps"(1) show ?thesis by simp
  next
    case (Some rest)
    with "2.prems" have eq: "c # cs = header_repl h @ rest"
      by (auto simp: settled_def)
    have "suffix rest (c # cs)"
      using Some by (rule match_header_suffix)
    with "2.prems" have "settled h rest"
      by (rule settled_suffix)
    with Some "2.hyps"(2) have "replace_header h (header_repl h) rest = rest" by simp
    moreover have "replace_header h (header_repl h) (c # cs) = header_repl h @ replace_header h (header_repl h) rest"
      using Some by simp
    ultimately show ?thesis
      using eq by simp
  qed
qed

lemma prefix_suffix_sublist: "prefix a b \<Longrightarrow> suffix b c \<Longrightarrow> sublist a c"
  unfolding sublist_altdef' by blast

lemma canon_suffix: "suffix u t \<Longrightarrow> suffix (canon u) (canon t)"
  unfolding canon_def by (rule map_mono_suffix)

lemma canon_tl: "canon (tl s) = tl (canon s)"
  by (simp add: canon_def map_tl)

lemma header_like_nonempty: "header_like h \<Longrightarrow> h \<noteq> []"
  by (simp add: header_like_def)

lemma header_like_no_space: "header_like h \<Longrightarrow> list_all (\<lambda>p. \<not> is_space (canonicalize p)) h"
  by (simp add: header_like_def)

lemma header_like_self: "header_like h \<Longrightarrow> \<not> sublist (canon h) (tl (canon (header_repl h)))"
  by (simp add: header_like_def)

text \<open>
  A literal that begins the text after a replacement began it before: up to
  the end of the first replaced header the two texts have the same canonical
  form, and the literal cannot go past the blank that follows.
\<close>

lemma ci_prefix_replace_header:
  "header_like g \<Longrightarrow> list_all (\<lambda>p. \<not> is_space (canonicalize p)) h
   \<Longrightarrow> ci_prefix h (replace_header g (header_repl g) z) \<Longrightarrow> ci_prefix h z"
proof (induction g "header_repl g" z arbitrary: h rule: replace_header.induct)
  case (1 g)
  then show ?case by simp
next
  case (2 g c cs)
  show ?case
  proof (cases "match_header g (c # cs)")
    case None
    show ?thesis
    proof (cases h)
      case Nil
      then show ?thesis by simp
    next
      case (Cons p ps)
      with "2.prems"(3) None have eq: "canonicalize c = canonicalize p"
        and ci: "ci_prefix ps (replace_header g (header_repl g) cs)"
        by (auto split: if_splits)
      from "2.prems"(2) Cons have "list_all (\<lambda>p. \<not> is_space (canonicalize p)) ps"
        by simp
      with None "2.prems"(1) ci have "ci_prefix ps cs"
        by (intro "2.hyps"(1))
      with eq Cons show ?thesis by simp
    qed
  next
    case (Some rest)
    with "2.prems"(3) have "ci_prefix h (g @ (CHR '' '' # ''[REDACTED]'' @ replace_header g (header_repl g) rest))"
      by (simp add: header_repl_def)
    moreover have "sp (CHR '' '' # ''[REDACTED]'' @ replace_header g (header_repl g) rest)"
      by (simp add: sp_Cons is_space_blank)
    ultimately have "prefix (canon h) (canon g)"
      using "2.prems"(2) by (intro ci_prefix_stops)
    moreover from Some have "prefix (canon g) (canon (c # cs))"
      by (auto dest: match_header_ci simp: ci_prefix_canon)
    ultimately show ?thesis
      unfolding ci_prefix_canon by (rule prefix_order.trans)
  qed
qed

text \<open>
  A text that is a header literal followed by white space only contains no
  match of any of the expressions.
\<close>

lemma match_header_None_spaces:
  "ci_prefix h z \<Longrightarrow> match_header h z = None \<Longrightarrow> list_all is_space (drop (length h) z)"
  by (auto simp: match_header_def Let_def dropWhile_eq_Nil_conv list_all_iff split: if_splits)

lemma match_header_spaces_None:
  "list_all is_space (drop (length h) z) \<Longrightarrow> match_header h z = None"
  by (auto simp: match_header_def Let_def dropWhile_eq_Nil_conv list_all_iff)

lemma replace_header_exhausted:
  assumes h: "header_like h" and g: "header_like g" and hg: "h = g \<or> apart h g"
    and ci: "ci_prefix h z" and ws: "list_all is_space (drop (length h) z)"
  shows "replace_header g (header_repl g) z = z"
proof -
  define u where "u = take (length h) z"
  define w where "w = drop (length h) z"
  have z: "z = u @ w"
    by (simp add: u_def w_def)
  from ci have pre: "prefix (canon h) (canon z)"
    by (simp add: ci_prefix_canon)
  then have "length h \<le> length z"
    using prefix_length_le [of "canon h" "canon z"] by (simp add: length_canon)
  then have lu: "length u = length h"
    by (simp add: u_def)
  from pre have cu: "canon u = canon h"
    unfolding u_def canon_def by (metis length_map prefixE append_eq_conv_conj take_map)
  have spw: "sp w"
    using ws by (simp add: w_def sp_all_space)
  have none: "match_header g (drop k u @ w) = None" if k: "k < length u" for k
  proof (rule ccontr)
    assume "match_header g (drop k u @ w) \<noteq> None"
    then obtain r where m: "match_header g (drop k u @ w) = Some r"
      by auto
    then have "ci_prefix g (drop k u @ w)"
      by (rule match_header_ci)
    with header_like_no_space [OF g] spw have "prefix (canon g) (canon (drop k u))"
      by (intro ci_prefix_stops)
    then have p: "prefix (canon g) (drop k (canon h))"
      by (simp add: canon_drop cu)
    show False
    proof (cases k)
      case 0
      with p have pg: "prefix (canon g) (canon h)" by simp
      show ?thesis
      proof (cases "h = g")
        case True
        with 0 m z have "match_header h z = Some r" by simp
        moreover have "match_header h z = None"
          using ws by (rule match_header_spaces_None)
        ultimately show ?thesis by simp
      next
        case False
        from pg have "prefix (canon g) (canon (header_repl h))"
          by (simp add: header_repl_def canon_append)
        then have "sublist (canon g) (canon (header_repl h))"
          by simp
        with False hg show ?thesis
          by (simp add: apart_def)
      qed
    next
      case (Suc j)
      then have "drop k (canon h) = drop j (tl (canon h))"
        by (simp add: drop_Suc)
      with p have "sublist (canon g) (tl (canon h))"
        by (metis prefix_suffix_sublist suffix_drop)
      moreover have "prefix (tl (canon h)) (tl (canon (header_repl h)))"
        using header_like_nonempty [OF h] by (cases h) (simp_all add: header_repl_def canon_def)
      ultimately have s1: "sublist (canon g) (tl (canon (header_repl h)))"
        by (meson prefix_imp_sublist sublist_order.order.trans)
      show ?thesis
      proof (cases "h = g")
        case True
        with s1 header_like_self [OF h] show ?thesis by simp
      next
        case False
        have "sublist (canon g) (canon (header_repl h))"
          using s1 by (rule sublist_suffix_trans) (rule suffix_tl)
        with False hg show ?thesis
          by (simp add: apart_def)
      qed
    qed
  qed
  have "replace_header g (header_repl g) (u @ w) = u @ replace_header g (header_repl g) w"
    using none by (rule replace_header_skip)
  moreover have "replace_header g (header_repl g) w = w"
    using header_like_nonempty [OF g] header_like_no_space [OF g] ws
    unfolding w_def by (rule replace_header_all_space)
  ultimately show ?thesis
    using z by simp
qed

lemma no_start_in_replacement:
  assumes g: "header_like g" and h: "header_like h" and ap: "apart h g"
    and w: "sp w" and k: "k < length (header_repl h)"
  shows "match_header g (drop k (header_repl h) @ w) = None"
proof (rule ccontr)
  assume "match_header g (drop k (header_repl h) @ w) \<noteq> None"
  then have "ci_prefix g (drop k (header_repl h) @ w)"
    by (auto dest: match_header_ci)
  with header_like_no_space [OF g] w have "prefix (canon g) (canon (drop k (header_repl h)))"
    by (intro ci_prefix_stops)
  then have "prefix (canon g) (drop k (canon (header_repl h)))"
    by (simp add: canon_drop)
  then have "sublist (canon g) (canon (header_repl h))"
    by (rule prefix_suffix_sublist) (rule suffix_drop)
  with ap show False
    by (simp add: apart_def)
qed

text \<open>
  The main step: the replacement for \<open>g\<close> produces a text settled for
  \<open>g\<close>, and it keeps a text settled for any other header \<open>h\<close> settled.
\<close>

lemma settled_replace_header:
  "header_like h \<Longrightarrow> header_like g \<Longrightarrow> h = g \<or> apart h g \<Longrightarrow> (h \<noteq> g \<longrightarrow> settled h z)
   \<Longrightarrow> settled h (replace_header g (header_repl g) z)"
proof (induction g "header_repl g" z rule: replace_header.induct)
  case (1 g)
  have "match_header h [] = None"
    using header_like_nonempty [OF "1.prems"(1)] header_like_no_space [OF "1.prems"(1)] sp_Nil
    by (rule match_header_space)
  then show ?case
    by (simp add: settled_def)
next
  case (2 g c cs)
  have h: "header_like h" and g: "header_like g" and hg: "h = g \<or> apart h g"
    and pre: "h \<noteq> g \<longrightarrow> settled h (c # cs)"
    by fact+
  let ?R = "replace_header g (header_repl g)"
  show ?case
  proof (cases "match_header g (c # cs)")
    case None
    have "h \<noteq> g \<longrightarrow> settled h cs"
      using pre by (auto intro: settled_suffix simp: suffix_Cons)
    with None h g hg have ih: "settled h (?R cs)"
      by (intro "2.hyps"(1))
    have Rz: "?R (c # cs) = c # ?R cs"
      using None by simp
    have top: "c # ?R cs = header_repl h @ r'" if m: "match_header h (c # ?R cs) = Some r'" for r'
    proof -
      from m have "ci_prefix h (?R (c # cs))"
        unfolding Rz by (rule match_header_ci)
      with g header_like_no_space [OF h] have ci: "ci_prefix h (c # cs)"
        by (rule ci_prefix_replace_header)
      show ?thesis
      proof (cases "match_header h (c # cs)")
        case none_h: None
        with ci have "list_all is_space (drop (length h) (c # cs))"
          by (rule match_header_None_spaces)
        with h g hg ci have "?R (c # cs) = c # cs"
          by (rule replace_header_exhausted)
        with m none_h Rz show ?thesis by simp
      next
        case (Some rest)
        with None have ne: "h \<noteq> g" by auto
        with pre have "settled h (c # cs)" by simp
        with Some have z: "c # cs = header_repl h @ rest"
          by (auto simp: settled_def)
        have ap: "apart h g"
          using ne hg by simp
        have sr: "sp rest"
          using Some by (rule match_header_sp)
        have "?R (header_repl h @ rest) = header_repl h @ ?R rest"
          using no_start_in_replacement [OF g h ap sr] by (rule replace_header_skip)
        with z Rz have v: "c # ?R cs = header_repl h @ ?R rest"
          by simp
        have "sp (?R rest)"
          using header_like_nonempty [OF g] header_like_no_space [OF g] sr
          by (rule replace_header_sp)
        then have "match_header h (header_repl h @ ?R rest) = Some (?R rest)"
          by (rule match_header_replacement)
        with m v have "r' = ?R rest" by simp
        with v show ?thesis by simp
      qed
    qed
    show ?thesis
      unfolding settled_def Rz
    proof (intro allI impI)
      fix v r'
      assume sv: "suffix v (c # ?R cs)" and m: "match_header h v = Some r'"
      from sv consider "v = c # ?R cs" | "suffix v (?R cs)"
        by (auto simp: suffix_Cons)
      then show "v = header_repl h @ r'"
      proof cases
        case 1
        with m top show ?thesis by simp
      next
        case 2
        with ih m show ?thesis by (auto simp: settled_def)
      qed
    qed
  next
    case (Some rest)
    have sufr: "suffix rest (c # cs)"
      using Some by (rule match_header_suffix)
    have "h \<noteq> g \<longrightarrow> settled h rest"
      using pre sufr by (auto intro: settled_suffix)
    with Some h g hg have ih: "settled h (?R rest)"
      by (intro "2.hyps"(2))
    have Rz: "?R (c # cs) = header_repl g @ ?R rest"
      using Some by simp
    have spw: "sp (?R rest)"
      using header_like_nonempty [OF g] header_like_no_space [OF g] match_header_sp [OF Some]
      by (rule replace_header_sp)
    show ?thesis
      unfolding settled_def Rz
    proof (intro allI impI)
      fix v r'
      assume sv: "suffix v (header_repl g @ ?R rest)" and m: "match_header h v = Some r'"
      from sv consider "suffix v (?R rest)" | u where "suffix u (header_repl g)" "v = u @ ?R rest"
        by (auto simp: suffix_append)
      then show "v = header_repl h @ r'"
      proof cases
        case 1
        with ih m show ?thesis by (auto simp: settled_def)
      next
        case 2
        from m 2 have "ci_prefix h (u @ ?R rest)"
          by (auto dest: match_header_ci)
        with header_like_no_space [OF h] spw have pu: "prefix (canon h) (canon u)"
          by (intro ci_prefix_stops)
        have su: "suffix (canon u) (canon (header_repl g))"
          using 2(1) by (rule canon_suffix)
        from pu su have sub: "sublist (canon h) (canon (header_repl g))"
          by (rule prefix_suffix_sublist)
        show ?thesis
        proof (cases "h = g")
          case False
          with hg sub show ?thesis by (simp add: apart_def)
        next
          case True
          have "header_repl g \<noteq> []" by (simp add: header_repl_def)
          with 2(1) consider "u = header_repl g" | "suffix u (tl (header_repl g))"
            by (cases "header_repl g") (auto simp: suffix_Cons)
          then show ?thesis
          proof cases
            case 1
            with 2 True have v: "v = header_repl h @ ?R rest" by simp
            have "match_header h (header_repl h @ ?R rest) = Some (?R rest)"
              using spw by (rule match_header_replacement)
            with m v show ?thesis by simp
          next
            case 2
            then have "suffix (canon u) (tl (canon (header_repl g)))"
              using canon_suffix [of u "tl (header_repl g)"] by (simp add: canon_tl)
            with pu have "sublist (canon h) (tl (canon (header_repl g)))"
              by (rule prefix_suffix_sublist)
            with True header_like_self [OF h] show ?thesis by simp
          qed
        qed
      qed
    qed
  qed
qed

text \<open>The three literals of the source are header-like and pairwise apart.\<close>

lemma headers_like:
  "header_like ''x-api-key:''" "header_like ''x-api-secret:''" "header_like ''authorization:''"
  by (simp_all add: header_like_def canon_def header_repl_def canonicalize_def is_space_def sublist_code)

lemma headers_apart:
  "apart ''x-api-key:'' ''x-api-secret:''" "apart ''x-api-key:'' ''authorization:''"
  "apart ''x-api-secret:'' ''authorization:''"
  by (simp_all add: apart_def canon_def header_repl_def canonicalize_def sublist_code)

lemma header_repl_simps:
  "header_repl ''x-api-key:'' = ''x-api-key: [REDACTED]''"
  "header_repl ''x-api-secret:'' = ''x-api-secret: [REDACTED]''"
  "header_repl ''authorization:'' = ''authorization: [REDACTED]''"
  by (simp_all add: header_repl_def)

lemma header_stage_settled:
  "settled ''x-api-key:'' (header_stage s)"
  "settled ''x-api-secret:'' (header_stage s)"
  "settled ''authorization:'' (header_stage s)"
proof -
  let ?k = "''x-api-key:''" and ?s = "''x-api-secret:''" and ?a = "''authorization:''"
  let ?s1 = "replace_header ?k (header_repl ?k) s"
  let ?s2 = "replace_header ?s (header_repl ?s) ?s1"
  let ?s3 = "replace_header ?a (header_repl ?a) ?s2"
  have hs: "header_stage s = ?s3"
    by (simp only: header_stage_def header_repl_simps)
  have k1: "settled ?k ?s1"
    by (rule settled_replace_header) (simp_all add: headers_like)
  have k2: "settled ?k ?s2"
    by (rule settled_replace_header) (simp_all add: headers_like headers_apart k1)
  show "settled ?k (header_stage s)"
    unfolding hs by (rule settled_replace_header) (simp_all add: headers_like headers_apart k2)
  have s2: "settled ?s ?s2"
    by (rule settled_replace_header) (simp_all add: headers_like)
  show "settled ?s (header_stage s)"
    unfolding hs by (rule settled_replace_header) (simp_all add: headers_like headers_apart s2)
  show "settled ?a (header_stage s)"
    unfolding hs by (rule settled_replace_header) (simp_all add: headers_like)
qed

lemma header_stage_idempotent: "header_stage (header_stage s) = header_stage s"
proof -
  have 1: "replace_header ''x-api-key:'' ''x-api-key: [REDACTED]'' (header_stage s) = header_stage s"
    using settled_fixed [OF header_stage_settled(1), of s] by (simp only: header_repl_simps)
  have 2: "replace_header ''x-api-secret:'' ''x-api-secret: [REDACTED]'' (header_stage s) = header_stage s"
    using settled_fixed [OF header_stage_settled(2), of s] by (simp only: header_repl_simps)
  have 3: "replace_header ''authorization:'' ''authorization: [REDACTED]'' (header_stage s) = header_stage s"
    using settled_fixed [OF header_stage_settled(3), of s] by (simp only: header_repl_simps)
  have "header_stage (header_stage s) =
      replace_header ''authorization:'' ''authorization: [REDACTED]''
       (replace_header ''x-api-secret:'' ''x-api-secret: [REDACTED]''
          (replace_header ''x-api-key:'' ''x-api-key: [REDACTED]'' (header_stage s)))"
    by (simp only: header_stage_def)
  also have "\<dots> = header_stage s"
    by (simp only: 1 2 3)
  finally show ?thesis .
qed

text \<open>Replacing a pattern that does not occur changes nothing.\<close>

lemma replaceAll_absent: "\<not> sublist p s \<Longrightarrow> replaceAll p r s = s"
proof (induction p r s rule: replaceAll.induct)
  case (1 p r)
  then show ?case by auto
next
  case (2 p r c cs)
  have ne: "p \<noteq> []"
    using "2.prems" by auto
  have np: "\<not> prefix p (c # cs)"
    using "2.prems" by auto
  have "\<not> sublist p cs"
    using "2.prems" by (simp add: sublist_Cons_right)
  with ne np have "replaceAll p r cs = cs"
    by (intro "2.IH"(3))
  with ne np show ?case by simp
qed

lemma fold_replaceAll_absent:
  "\<forall>p\<in>set ps. \<not> sublist p s \<Longrightarrow> fold (\<lambda>pattern sanitized. replaceAll pattern r sanitized) ps s = s"
  by (induction ps) (simp_all add: replaceAll_absent)

lemma sanitizeMessage_stages:
  "sanitizeMessage patterns m =
     header_stage (fold (\<lambda>pattern sanitized. replaceAll pattern ''[REDACTED]'' sanitized) patterns m)"
  by (simp add: sanitizeMessage_def header_stage_def)

text \<open>
  C6, as amended. Whenever the output of \<open>sanitizeMessage\<close> contains none
  of the registered secrets, a second pass leaves it as it is; with no secret
  registered this is every output.
\<close>

theorem sanitizeMessage_idempotent_if_clean:
  assumes "\<forall>p\<in>set patterns. \<not> sublist p (sanitizeMessage patterns m)"
  shows "sanitizeMessage patterns (sanitizeMessage patterns m) = sanitizeMessage patterns m"
proof -
  have "fold (\<lambda>pattern sanitized. replaceAll pattern ''[REDACTED]'' sanitized) patterns
          (sanitizeMessage patterns m) = sanitizeMessage patterns m"
    using assms by (rule fold_replaceAll_absent)
  then have "sanitizeMessage patterns (sanitizeMessage patterns m)
      = header_stage (sanitizeMessage patterns m)"
    by (simp only: sanitizeMessage_stages [of patterns "sanitizeMessage patterns m"])
  also have "\<dots> = sanitizeMessage patterns m"
    by (simp only: sanitizeMessage_stages [of patterns m] header_stage_idempotent)
  finally show ?thesis .
qed

theorem sanitizeMessage_idempotent_if_clean_witness:
  "\<not> sublist ''K-1'' (sanitizeMessage [''K-1''] ''K-1 X-Api-Key: k'')
   \<and> sanitizeMessage [''K-1''] ''K-1 X-Api-Key: k'' = ''[REDACTED] x-api-key: [REDACTED]''
   \<and> sanitizeMessage [''K-1''] (sanitizeMessage [''K-1''] ''K-1 X-Api-Key: k'')
       = sanitizeMessage [''K-1''] ''K-1 X-Api-Key: k''"
proof -
  have v: "sanitizeMessage [''K-1''] ''K-1 X-Api-Key: k'' = ''[REDACTED] x-api-key: [REDACTED]''"
    by (simp add: sanitizeMessage_def match_header_def canonicalize_def is_space_def)
  have c: "\<forall>p\<in>set [''K-1'']. \<not> sublist p (sanitizeMessage [''K-1''] ''K-1 X-Api-Key: k'')"
    by (simp add: v sublist_code)
  show ?thesis
    using c v sanitizeMessage_idempotent_if_clean [OF c] by simp
qed

text \<open>
  C6 as stated fails: with the secret \<^verbatim>\<open>RED\<close> registered, the output
  \<^verbatim>\<open>[REDACTED]\<close> for the message \<^verbatim>\<open>RED\<close> is changed by a second pass.
\<close>

theorem sanitizeMessage_not_idempotent:
  "sanitizeMessage [''RED''] (sanitizeMessage [''RED''] ''RED'') \<noteq> sanitizeMessage [''RED''] ''RED''"
  by (simp add: sanitizeMessage_def match_header_def canonicalize_def)

end
